theory Spec2Isabelle
  imports Main "HOL-Library.Sublist"
begin

section \<open>The release script \<open>.github/scripts/auto_release.py\<close>\<close>

text \<open>
  The script is a straight line of side-effecting steps. The model threads a state (the
  files the script itself reads and writes, and the trace of everything it did) through
  the steps; a step returns \<open>Inl\<close> when it leaves by \<open>sys.exit\<close> or by an exception
  nobody catches, \<open>Inr\<close> with its value otherwise. What the script cannot decide itself is
  a field of the record \<open>world\<close>: the environment variables, the behaviour of the shell,
  the answer of the LLM API, pydantic's JSON validation, the manifest and today's date.

  Strings are lists of 8-bit characters (the code points below 256). The script compares
  characters with ASCII ones only and cuts strings only where its search stopped.
\<close>

subsection \<open>Regular expressions: the fragment used by \<open>update_changelog\<close>\<close>

text \<open>
  \<open>re.search(r'## \[Unreleased\].*?\n(.*?\n)', content, re.DOTALL)\<close>. The pattern is a
  sequence of literal characters and of lazy \<open>.*?\<close>; with \<open>re.DOTALL\<close> the dot
  matches every character, the newline too. The group only captures, it does not change
  what matches. Python's matcher is a backtracking one: a lazy star first tries the rest
  of the pattern where it stands, and takes one more character only when that fails.
  \<open>match_here\<close> returns the number of characters the match consumed.
\<close>

datatype 'a atom = Lit 'a | LazyAny

fun match_here :: "'a atom list \<Rightarrow> 'a list \<Rightarrow> nat option" where
  "match_here [] s = Some 0"
| "match_here (Lit c # ps) [] = None"
| "match_here (Lit c # ps) (x # xs) =
     (if x = c then map_option Suc (match_here ps xs) else None)"
| "match_here (LazyAny # ps) s =
     (case match_here ps s of
        Some n \<Rightarrow> Some n
      | None \<Rightarrow>
          (case s of
             [] \<Rightarrow> None
           | x # xs \<Rightarrow> map_option Suc (match_here (LazyAny # ps) xs)))"

text \<open>
  \<open>re.search\<close> tries the start positions from left to right and returns the first match:
  its start and its end (\<open>m.start()\<close>, \<open>m.end()\<close>). The last position tried is the end
  of the string. \<open>i\<close> is the offset of the remaining text in the searched string.
\<close>

fun re_search_from :: "'a atom list \<Rightarrow> 'a list \<Rightarrow> nat \<Rightarrow> (nat \<times> nat) option" where
  "re_search_from pat [] i =
     (case match_here pat [] of Some n \<Rightarrow> Some (i, i + n) | None \<Rightarrow> None)"
| "re_search_from pat (x # xs) i =
     (case match_here pat (x # xs) of
        Some n \<Rightarrow> Some (i, i + n)
      | None \<Rightarrow> re_search_from pat xs (Suc i))"

definition re_search :: "'a atom list \<Rightarrow> 'a list \<Rightarrow> (nat \<times> nat) option" where
  "re_search pat s = re_search_from pat s 0"

definition newline :: char where
  "newline = CHR 0x0A"

definition unreleased_marker :: string where
  "unreleased_marker = ''## [Unreleased]''"

definition unreleased_re :: "char atom list" where
  "unreleased_re =
     map Lit unreleased_marker @ [LazyAny, Lit newline, LazyAny, Lit newline]"

subsection \<open>State, events, exits\<close>

datatype exn =
    CalledProcessError string int
  | OSError string
  | UnicodeDecodeError string
  | ManifestError
  | ApiException string

datatype abort = SystemExit int | Uncaught exn

datatype event =
    Print string
  | Traceback exn
  | Run string
  | ApiCall string
  | FileWrite string string
  | FileAppend string string

record state =
  files :: "string \<rightharpoonup> string"
  trace :: "event list"

record completed_process =
  returncode :: int
  stdout :: string
  stderr :: string

datatype content_block = TextBlock string | OtherBlock string

datatype api_outcome = ApiRaises string | ApiMessage "content_block list"

text \<open>The class \<open>VersionAnalysis\<close>: three required fields of type \<open>str\<close>.\<close>

record VersionAnalysis =
  version_bump :: string
  new_version :: string
  changelog_entry :: string

text \<open>
  \<open>package_version\<close> is what \<open>json.load(open("package.json"))["version"]\<close> gives,
  \<open>None\<close> when one of the three steps raises. \<open>shell\<close> is what a command line does when
  \<open>subprocess.run\<close> executes it; what it changes outside the script is not modelled, the
  trace records that it ran. \<open>llm\<close> is the outcome of \<open>client.messages.create\<close> on a
  prompt. \<open>model_validate_json\<close> is pydantic's validation of a JSON text against
  \<open>VersionAnalysis\<close>: the message of the \<open>ValidationError\<close>, or the three fields.
  \<open>decodable\<close> says whether the codec of the locale decodes the bytes of a file; the
  decoded text is represented by the same bytes (the codec is one that leaves ASCII bytes
  alone, as UTF-8 and Latin-1 do).
\<close>

record world =
  environ :: "string \<rightharpoonup> string"
  package_version :: "string option"
  shell :: "string \<Rightarrow> completed_process"
  llm :: "string \<Rightarrow> api_outcome"
  model_validate_json :: "string \<Rightarrow> string + VersionAnalysis"
  today :: string
  decodable :: "string \<Rightarrow> bool"

type_synonym 'a step = "state \<Rightarrow> (abort + 'a) \<times> state"

definition ret :: "'a \<Rightarrow> 'a step" where
  "ret x s = (Inr x, s)"

definition then_do :: "'a step \<Rightarrow> ('a \<Rightarrow> 'b step) \<Rightarrow> 'b step" where
  "then_do m f s = (case m s of (Inl e, s') \<Rightarrow> (Inl e, s') | (Inr x, s') \<Rightarrow> f x s')"

definition emit :: "event \<Rightarrow> state \<Rightarrow> state" where
  "emit e s = s\<lparr>trace := trace s @ [e]\<rparr>"

definition print :: "string \<Rightarrow> unit step" where
  "print line s = (Inr (), emit (Print line) s)"

definition sys_exit :: "int \<Rightarrow> 'a step" where
  "sys_exit n s = (Inl (SystemExit n), s)"

definition raise :: "exn \<Rightarrow> 'a step" where
  "raise e s = (Inl (Uncaught e), s)"

text \<open>\<open>os.getenv(k)\<close>, \<open>os.getenv(k, d)\<close>, and \<open>not v\<close> for an optional string.\<close>

definition getenv :: "world \<Rightarrow> string \<Rightarrow> string option" where
  "getenv w k = environ w k"

definition getenv_default :: "world \<Rightarrow> string \<Rightarrow> string \<Rightarrow> string" where
  "getenv_default w k d = (case environ w k of None \<Rightarrow> d | Some v \<Rightarrow> v)"

definition falsy :: "string option \<Rightarrow> bool" where
  "falsy v = (case v of None \<Rightarrow> True | Some x \<Rightarrow> x = [])"

text \<open>An optional string inside an f-string: \<open>None\<close> prints as \<open>None\<close>.\<close>

definition fmt :: "string option \<Rightarrow> string" where
  "fmt v = (case v of None \<Rightarrow> ''None'' | Some x \<Rightarrow> x)"

text \<open>The character \<open>'\<close>, for strings that begin or end with it.\<close>

definition apostrophe :: string where
  "apostrophe = [CHR 0x27]"

text \<open>\<open>str.strip()\<close>: the whitespace characters below 256.\<close>

definition isspace :: "char \<Rightarrow> bool" where
  "isspace c =
     (of_char c \<in> {9, 10, 11, 12, 13, 28, 29, 30, 31, 32, 133, 160 :: nat})"

definition strip :: "string \<Rightarrow> string" where
  "strip s = rev (dropWhile isspace (rev (dropWhile isspace s)))"

subsection \<open>\<open>run_command\<close>\<close>

text \<open>
  \<open>subprocess.run(..., check=True)\<close> raises \<open>CalledProcessError\<close> itself when the
  command's exit status is not zero; with \<open>check=False\<close> it returns the result whatever
  the status.
\<close>

definition subprocess_run :: "world \<Rightarrow> string \<Rightarrow> bool \<Rightarrow> completed_process step" where
  "subprocess_run w cmd check s =
     (let result = shell w cmd; s' = emit (Run cmd) s in
      if check \<and> returncode result \<noteq> 0
      then (Inl (Uncaught (CalledProcessError cmd (returncode result))), s')
      else (Inr result, s'))"

definition run_command :: "world \<Rightarrow> string \<Rightarrow> bool \<Rightarrow> string step" where
  "run_command w cmd check =
     then_do (print (''Running: '' @ cmd)) (\<lambda>_.
     then_do (subprocess_run w cmd check) (\<lambda>result.
     if returncode result \<noteq> 0 \<and> check
     then then_do (print (''Error: '' @ stderr result)) (\<lambda>_. sys_exit 1)
     else ret (strip (stdout result))))"

subsection \<open>Reading the inputs\<close>

definition get_current_version :: "world \<Rightarrow> string step" where
  "get_current_version w =
     (case package_version w of None \<Rightarrow> raise ManifestError | Some v \<Rightarrow> ret v)"

record pr_details =
  title :: string
  body :: string
  commits :: string

definition get_pr_details :: "world \<Rightarrow> string \<Rightarrow> string \<Rightarrow> pr_details step" where
  "get_pr_details w base_sha head_sha =
     (let pr_title = getenv_default w ''PR_TITLE'' '''';
          pr_body = getenv_default w ''PR_BODY'' ''No description provided''
      in then_do
           (run_command w (''git log --format='%s%n%b' '' @ base_sha @ ''..'' @ head_sha) True)
           (\<lambda>log. ret \<lparr>title = pr_title, body = pr_body, commits = log\<rparr>))"

subsection \<open>\<open>analyze_version_bump\<close>\<close>

definition prompt :: "world \<Rightarrow> string \<Rightarrow> pr_details \<Rightarrow> string" where
  "prompt w current_version pr =
     ''You are analyzing a merged pull request to determine the appropriate semantic version bump and generate a changelog entry.\<newline>''
   @ ''\<newline>''
   @ ''Current version: '' @ current_version @ ''\<newline>''
   @ ''\<newline>''
   @ ''PR Title: '' @ title pr @ ''\<newline>''
   @ ''\<newline>''
   @ ''PR Description:\<newline>''
   @ body pr @ ''\<newline>''
   @ ''\<newline>''
   @ ''Commit messages:\<newline>''
   @ commits pr @ ''\<newline>''
   @ ''\<newline>''
   @ ''Based on semantic versioning rules:\<newline>''
   @ ''- PATCH (x.x.X): Bug fixes, documentation, minor improvements that don't add features\<newline>''
   @ ''- MINOR (x.X.x): New features, enhancements (backward compatible)\<newline>''
   @ ''- MAJOR (X.x.x): Breaking changes\<newline>''
   @ ''\<newline>''
   @ ''Analyze the changes and provide:\<newline>''
   @ ''1. The type of version bump needed (patch, minor, or major)\<newline>''
   @ ''2. The new version number calculated from the current version\<newline>''
   @ ''3. A changelog entry in markdown format\<newline>''
   @ ''\<newline>''
   @ ''Guidelines for changelog:\<newline>''
   @ ''- Use today's date: '' @ today w @ ''\<newline>''
   @ ''- Only include user-facing changes that affect the published extension\<newline>''
   @ ''- Be specific and accurate about what was fixed or added\<newline>''
   @ ''- Use categories: ### Fixed, ### Added, ### Changed, ### Removed\<newline>''
   @ ''- Focus on what users will experience, not implementation details\<newline>''
   @ ''- Don't mention internal refactorings unless they affect user experience\<newline>''
   @ ''- Start with ## [X.Y.Z] - YYYY-MM-DD format''"

text \<open>
  The body of the \<open>try\<close>: the call, \<open>message.content[0].text\<close> (an \<open>IndexError\<close> on an
  empty list, an \<open>AttributeError\<close> on a block that has no text), the print of the raw
  answer, the validation. Each exception carries the text \<open>str(e)\<close> gives.
\<close>

definition api_failed :: "string \<Rightarrow> 'a step" where
  "api_failed msg =
     then_do (print (''Error calling Claude API: '' @ msg)) (\<lambda>_.
     then_do (\<lambda>s. (Inr (), emit (Traceback (ApiException msg)) s)) (\<lambda>_.
     sys_exit 1))"

definition analyze_version_bump ::
  "world \<Rightarrow> string \<Rightarrow> pr_details \<Rightarrow> (string \<times> string \<times> string) step" where
  "analyze_version_bump w current_version pr =
     (let api_key = getenv w ''ANTHROPIC_API_KEY'' in
      if falsy api_key
      then then_do (print ''Error: ANTHROPIC_API_KEY environment variable not set'')
             (\<lambda>_. sys_exit 1)
      else
        then_do (\<lambda>s. (Inr (llm w (prompt w current_version pr)),
                       emit (ApiCall (prompt w current_version pr)) s))
          (\<lambda>outcome.
             case outcome of
               ApiRaises msg \<Rightarrow> api_failed msg
             | ApiMessage blocks \<Rightarrow>
                 (case blocks of
                    [] \<Rightarrow> api_failed ''list index out of range''
                  | OtherBlock cls # _ \<Rightarrow>
                      api_failed (apostrophe @ cls @ apostrophe @ '' object has no attribute 'text'' @ apostrophe)
                  | TextBlock content # _ \<Rightarrow>
                      then_do (print (''Claude response: '' @ content)) (\<lambda>_.
                      case model_validate_json w content of
                        Inl msg \<Rightarrow> api_failed msg
                      | Inr result \<Rightarrow>
                          ret (version_bump result, new_version result,
                               changelog_entry result)))))"

subsection \<open>Editing the manifest and the changelog\<close>

definition update_package_json :: "world \<Rightarrow> string \<Rightarrow> unit step" where
  "update_package_json w new_v =
     then_do (print (''Updating package.json to version '' @ new_v)) (\<lambda>_.
     then_do (run_command w (''npm version '' @ new_v @ '' --no-git-tag-version'') True) (\<lambda>_.
     ret ()))"

text \<open>
  \<open>open(path, "r")\<close> reads in text mode: bytes that do not decode raise
  \<open>UnicodeDecodeError\<close>, and with universal newlines both CR LF and a CR alone are read
  as LF. \<open>open(path, "w")\<close> and \<open>open(path, "a")\<close> write the text as it is: the line
  separator of the platform is LF, as on the Linux machines that run the workflow.
\<close>

definition carriage_return :: char where
  "carriage_return = CHR 0x0D"

fun universal_newlines :: "string \<Rightarrow> string" where
  "universal_newlines [] = []"
| "universal_newlines [c] = [if c = carriage_return then newline else c]"
| "universal_newlines (c # d # cs) =
     (if c = carriage_return
      then (if d = newline then newline # universal_newlines cs
            else newline # universal_newlines (d # cs))
      else c # universal_newlines (d # cs))"

definition read_file :: "world \<Rightarrow> string \<Rightarrow> string step" where
  "read_file w path s =
     (case files s path of
        None \<Rightarrow> (Inl (Uncaught (OSError path)), s)
      | Some bytes \<Rightarrow>
          if decodable w bytes then (Inr (universal_newlines bytes), s)
          else (Inl (Uncaught (UnicodeDecodeError path)), s))"

definition write_file :: "string \<Rightarrow> string \<Rightarrow> unit step" where
  "write_file path text s =
     (Inr (), emit (FileWrite path text) (s\<lparr>files := (files s)(path \<mapsto> text)\<rparr>))"

definition append_file :: "string \<Rightarrow> string \<Rightarrow> unit step" where
  "append_file path text s =
     (Inr (), emit (FileAppend path text)
        (s\<lparr>files := (files s)(path \<mapsto>
              (case files s path of None \<Rightarrow> text | Some c \<Rightarrow> c @ text))\<rparr>))"

definition new_content :: "string \<Rightarrow> nat \<Rightarrow> string \<Rightarrow> string" where
  "new_content content insert_pos entry =
     take insert_pos content @ ''\<newline>'' @ entry @ ''\<newline>\<newline>'' @ drop insert_pos content"

definition update_changelog :: "world \<Rightarrow> string \<Rightarrow> unit step" where
  "update_changelog w entry =
     then_do (print ''Updating CHANGELOG.md'') (\<lambda>_.
     then_do (read_file w ''CHANGELOG.md'') (\<lambda>content.
     case re_search unreleased_re content of
       None \<Rightarrow>
         then_do (print ''Error: Could not find [Unreleased] section in CHANGELOG.md'')
           (\<lambda>_. sys_exit 1)
     | Some (match_start, insert_pos) \<Rightarrow>
         write_file ''CHANGELOG.md'' (new_content content insert_pos entry)))"

subsection \<open>Commit, publish, tag\<close>

definition commit_and_push :: "world \<Rightarrow> string \<Rightarrow> unit step" where
  "commit_and_push w new_v =
     then_do (print ''Committing version changes'') (\<lambda>_.
     then_do (run_command w (''git config user.name 'github-actions[bot]'' @ apostrophe) True) (\<lambda>_.
     then_do (run_command w
        (''git config user.email 'github-actions[bot]@users.noreply.github.com'' @ apostrophe) True) (\<lambda>_.
     then_do (run_command w ''git add package.json package-lock.json CHANGELOG.md'' True) (\<lambda>_.
     then_do (run_command w
        (''git commit -m 'chore: bump version to '' @ new_v @ '' [skip ci]'' @ apostrophe) True) (\<lambda>_.
     then_do (run_command w ''git push'' True) (\<lambda>_.
     ret ()))))))"

definition publish_extension :: "world \<Rightarrow> unit step" where
  "publish_extension w =
     (let vsce_token = getenv w ''WILDESTAI_AZURE_PUBLISH_PAT'';
          ovsx_token = getenv w ''OPENVSX_TOKEN''
      in if falsy vsce_token \<or> falsy ovsx_token
         then then_do (print ''Error: WILDESTAI_AZURE_PUBLISH_PAT or OPENVSX_TOKEN not set'')
                (\<lambda>_. sys_exit 1)
         else
           then_do (print ''Installing vsce and ovsx'') (\<lambda>_.
           then_do (run_command w ''npm install -g @vscode/vsce ovsx'' True) (\<lambda>_.
           then_do (print ''Building extension'') (\<lambda>_.
           then_do (run_command w ''npm run package'' True) (\<lambda>_.
           then_do (print ''Publishing to VSCode Marketplace'') (\<lambda>_.
           then_do (run_command w (''vsce publish -p '' @ fmt vsce_token) True) (\<lambda>_.
           then_do (print ''Publishing to Open VSX'') (\<lambda>_.
           then_do (run_command w (''ovsx publish -p '' @ fmt ovsx_token) True) (\<lambda>_.
           ret ())))))))))"

definition create_git_tag :: "world \<Rightarrow> string \<Rightarrow> unit step" where
  "create_git_tag w new_v =
     then_do (print (''Creating git tag v'' @ new_v)) (\<lambda>_.
     then_do (run_command w
        (''git tag -a 'v'' @ new_v @ apostrophe @ '' -m 'Release version '' @ new_v @ apostrophe) True) (\<lambda>_.
     then_do (run_command w ''git push --tags'' True) (\<lambda>_.
     ret ())))"

subsection \<open>\<open>main\<close> and the process\<close>

definition github_outputs :: "world \<Rightarrow> string \<Rightarrow> string \<Rightarrow> unit step" where
  "github_outputs w new_v entry =
     (let github_output = getenv w ''GITHUB_OUTPUT'' in
      if \<not> falsy github_output
      then then_do (append_file (fmt github_output) (''new_version='' @ new_v @ ''\<newline>'')) (\<lambda>_.
           append_file (fmt github_output) (''changelog<<EOF\<newline>'' @ entry @ ''\<newline>EOF\<newline>''))
      else ret ())"

definition release :: "world \<Rightarrow> string \<Rightarrow> string \<Rightarrow> unit step" where
  "release w base_sha head_sha =
     then_do (get_current_version w) (\<lambda>current_version.
     then_do (print (''Current version: '' @ current_version)) (\<lambda>_.
     then_do (get_pr_details w base_sha head_sha) (\<lambda>pr.
     then_do (print (''PR Title: '' @ title pr)) (\<lambda>_.
     then_do (analyze_version_bump w current_version pr) (\<lambda>(bump, new_v, entry).
     then_do (print (''Version bump: '' @ bump)) (\<lambda>_.
     then_do (print (''New version: '' @ new_v)) (\<lambda>_.
     then_do (print (''Changelog:\<newline>'' @ entry)) (\<lambda>_.
     then_do (update_package_json w new_v) (\<lambda>_.
     then_do (update_changelog w entry) (\<lambda>_.
     then_do (commit_and_push w new_v) (\<lambda>_.
     then_do (publish_extension w) (\<lambda>_.
     then_do (create_git_tag w new_v) (\<lambda>_.
     then_do (print ''=== Release process completed successfully ==='') (\<lambda>_.
     then_do (print (''Version '' @ new_v @ '' has been published!'')) (\<lambda>_.
     github_outputs w new_v entry)))))))))))))))"

definition main :: "world \<Rightarrow> unit step" where
  "main w =
     then_do (print ''=== Starting automated release process ==='') (\<lambda>_.
     let base_sha = getenv w ''BASE_SHA''; head_sha = getenv w ''HEAD_SHA'' in
     if falsy base_sha \<or> falsy head_sha
     then then_do (print ''Error: BASE_SHA or HEAD_SHA not set'') (\<lambda>_. sys_exit 1)
     else release w (fmt base_sha) (fmt head_sha))"

text \<open>
  The process: status 0 when \<open>main\<close> returns, the argument of \<open>sys.exit\<close>, and 1 with a
  traceback on the error stream when an exception reaches the top.
\<close>

definition script :: "world \<Rightarrow> state \<Rightarrow> int \<times> state" where
  "script w s =
     (case main w s of
        (Inr _, s') \<Rightarrow> (0, s')
      | (Inl (SystemExit n), s') \<Rightarrow> (n, s')
      | (Inl (Uncaught e), s') \<Rightarrow> (1, emit (Traceback e) s'))"

subsection \<open>Notions of the specification\<close>

text \<open>
  The words the claims use and the script does not: where a marker occurs in a text and
  where it occurs first, the block the splice inserts, and the removal of a block.
\<close>

definition occurs_at :: "'a list \<Rightarrow> 'a list \<Rightarrow> nat \<Rightarrow> bool" where
  "occurs_at m s k = prefix m (drop k s)"

definition first_occurrence :: "'a list \<Rightarrow> 'a list \<Rightarrow> nat \<Rightarrow> bool" where
  "first_occurrence m s k = (occurs_at m s k \<and> (\<forall>j<k. \<not> occurs_at m s j))"

definition inserted_block :: "string \<Rightarrow> string" where
  "inserted_block entry = newline # entry @ [newline, newline]"

definition remove_block :: "nat \<Rightarrow> nat \<Rightarrow> 'a list \<Rightarrow> 'a list" where
  "remove_block p n xs = take p xs @ drop (p + n) xs"


text \<open>
  The command line of \<open>get_pr_details\<close>; the message of the exception that the \<open>try\<close>
  block of \<open>analyze_version_bump\<close> raises on a prompt, \<open>None\<close> when it raises none; and
  the print of the raw answer, which happens when the answer has a text.
\<close>

definition git_log_command :: "string \<Rightarrow> string \<Rightarrow> string" where
  "git_log_command base_sha head_sha =
     ''git log --format='%s%n%b' '' @ base_sha @ ''..'' @ head_sha"

definition api_error :: "world \<Rightarrow> string \<Rightarrow> string option" where
  "api_error w p =
     (case llm w p of
        ApiRaises msg \<Rightarrow> Some msg
      | ApiMessage [] \<Rightarrow> Some ''list index out of range''
      | ApiMessage (OtherBlock cls # _) \<Rightarrow>
          Some (apostrophe @ cls @ apostrophe @ '' object has no attribute 'text'' @ apostrophe)
      | ApiMessage (TextBlock content # _) \<Rightarrow>
          (case model_validate_json w content of Inl msg \<Rightarrow> Some msg | Inr _ \<Rightarrow> None))"

definition raw_response :: "world \<Rightarrow> string \<Rightarrow> event list" where
  "raw_response w p =
     (case llm w p of
        ApiMessage (TextBlock content # _) \<Rightarrow> [Print (''Claude response: '' @ content)]
      | _ \<Rightarrow> [])"


text \<open>
  Semantic versioning as the specification words it: the three kinds of bump and what
  each does to \<open>A.B.C\<close>, the order of versions, and the text of a version.
\<close>

datatype bump_kind = Patch | Minor | Major

fun spec_bump :: "bump_kind \<Rightarrow> nat \<times> nat \<times> nat \<Rightarrow> nat \<times> nat \<times> nat" where
  "spec_bump Patch (a, b, c) = (a, b, c + 1)"
| "spec_bump Minor (a, b, c) = (a, b + 1, 0)"
| "spec_bump Major (a, b, c) = (a + 1, 0, 0)"

fun semver_less :: "nat \<times> nat \<times> nat \<Rightarrow> nat \<times> nat \<times> nat \<Rightarrow> bool" where
  "semver_less (a, b, c) (a', b', c') =
     (a < a' \<or> (a = a' \<and> (b < b' \<or> (b = b' \<and> c < c'))))"

fun kind_name :: "bump_kind \<Rightarrow> string" where
  "kind_name Patch = ''patch''"
| "kind_name Minor = ''minor''"
| "kind_name Major = ''major''"

fun string_of_nat :: "nat \<Rightarrow> string" where
  "string_of_nat n =
     (if n < 10 then [''0123456789'' ! n]
      else string_of_nat (n div 10) @ [''0123456789'' ! (n mod 10)])"

fun version_string :: "nat \<times> nat \<times> nat \<Rightarrow> string" where
  "version_string (a, b, c) =
     string_of_nat a @ ''.'' @ string_of_nat b @ ''.'' @ string_of_nat c"


text \<open>
  What a run has done is read off its trace. An event is read-only when it changes
  nothing: a print, a traceback, the \<open>git log\<close> command. An event is a publishing one when
  it is a command of the publishing step: installing the tools, building the package,
  publishing to either registry.
\<close>

definition read_only_event :: "event \<Rightarrow> bool" where
  "read_only_event e =
     (case e of
        Print _ \<Rightarrow> True
      | Traceback _ \<Rightarrow> True
      | Run c \<Rightarrow> prefix ''git log '' c
      | ApiCall _ \<Rightarrow> False
      | FileWrite _ _ \<Rightarrow> False
      | FileAppend _ _ \<Rightarrow> False)"

definition publishing_event :: "event \<Rightarrow> bool" where
  "publishing_event e =
     (case e of
        Run c \<Rightarrow> c = ''npm install -g @vscode/vsce ovsx'' \<or> c = ''npm run package'' \<or>
                prefix ''vsce publish'' c \<or> prefix ''ovsx publish'' c
      | _ \<Rightarrow> False)"


subsection \<open>Properties of steps\<close>

text \<open>
  Three properties of a step, each kept by sequencing: it emits only events that satisfy
  \<open>P\<close> and exits with status 1 when it exits; it leaves the files as they are; it never
  returns normally.
\<close>

definition emits_only :: "(event \<Rightarrow> bool) \<Rightarrow> 'a step \<Rightarrow> bool" where
  "emits_only P m =
     (\<forall>s r s'. m s = (r, s') \<longrightarrow>
        (\<exists>evs. trace s' = trace s @ evs \<and> list_all P evs) \<and>
        (\<forall>n. r = Inl (SystemExit n) \<longrightarrow> n = 1))"

definition keeps_files :: "'a step \<Rightarrow> bool" where
  "keeps_files m = (\<forall>s r s'. m s = (r, s') \<longrightarrow> files s' = files s)"

definition never_returns :: "'a step \<Rightarrow> bool" where
  "never_returns m = (\<forall>s r s'. m s = (r, s') \<longrightarrow> (\<exists>e. r = Inl e))"



subsection \<open>An example run\<close>

text \<open>
  A world in which every variable is set, every command succeeds and the model answers
  with a patch release, and a state whose changelog has the marker. The witnesses change
  one field at a time.
\<close>

definition example_world :: world where
  "example_world =
     \<lparr>environ = [''BASE_SHA'' \<mapsto> ''a1b2c3'', ''HEAD_SHA'' \<mapsto> ''d4e5f6'',
                 ''ANTHROPIC_API_KEY'' \<mapsto> ''key'',
                 ''WILDESTAI_AZURE_PUBLISH_PAT'' \<mapsto> ''pat'', ''OPENVSX_TOKEN'' \<mapsto> ''tok'',
                 ''GITHUB_OUTPUT'' \<mapsto> ''out.txt''],
      package_version = Some ''1.2.3'',
      shell = (\<lambda>cmd. \<lparr>returncode = 0, stdout = '''', stderr = ''''\<rparr>),
      llm = (\<lambda>p. ApiMessage [TextBlock ''{...}'']),
      model_validate_json = (\<lambda>text. Inr \<lparr>version_bump = ''patch'', new_version = ''1.2.4'',
                                           changelog_entry = ''## [1.2.4]''\<rparr>),
      today = ''2025-01-01'',
      decodable = (\<lambda>bytes. True)\<rparr>"

definition example_state :: state where
  "example_state =
     \<lparr>files = [''CHANGELOG.md'' \<mapsto> ''# Changelog\<newline>\<newline>## [Unreleased]\<newline>\<newline>## [1.0.0]\<newline>''],
      trace = []\<rparr>"

text \<open>The changelog of the example state with CR LF at the end of every line.\<close>

definition example_crlf_changelog :: string where
  "example_crlf_changelog =
     ''# Changelog'' @ [carriage_return, newline, carriage_return, newline] @
     ''## [Unreleased]'' @ [carriage_return, newline, carriage_return, newline] @
     ''## [1.0.0]'' @ [carriage_return, newline]"

section \<open>The search for the Unreleased section\<close>

lemma match_here_lits:
  "match_here (map Lit m @ ps) s =
     (if prefix m s then map_option (\<lambda>n. length m + n) (match_here ps (drop (length m) s))
      else None)"
proof (induction m arbitrary: s)
  case Nil
  show ?case by (cases "match_here ps s") auto
next
  case (Cons c m)
  show ?case
  proof (cases s)
    case Nil
    then show ?thesis by simp
  next
    case (Cons x xs)
    then show ?thesis using Cons.IH [of xs] by (auto simp: option.map_comp comp_def)
  qed
qed

lemma lazy_step_other:
  "x \<noteq> c \<Longrightarrow>
   match_here (LazyAny # Lit c # ps) (x # xs) =
     map_option Suc (match_here (LazyAny # Lit c # ps) xs)"
  by simp

lemma lazy_step_hit:
  "match_here (LazyAny # Lit c # ps) (c # xs) =
     (case match_here ps xs of
        Some n \<Rightarrow> Some (Suc n)
      | None \<Rightarrow> map_option Suc (match_here (LazyAny # Lit c # ps) xs))"
  by (simp split: option.splits)

lemma lazy_step_end: "match_here (LazyAny # Lit c # ps) [] = None"
  by simp

lemma match_here_line:
  "c \<notin> set r \<Longrightarrow> match_here [LazyAny, Lit c] (r @ c # t) = Some (Suc (length r))"
  by (induction r) auto

lemma match_here_line_none:
  "c \<notin> set s \<Longrightarrow> match_here [LazyAny, Lit c] s = None"
  by (induction s) auto

lemma match_here_two_lines:
  "c \<notin> set r \<Longrightarrow> c \<notin> set l \<Longrightarrow>
   match_here [LazyAny, Lit c, LazyAny, Lit c] (r @ c # l @ c # t) = Some (length r + length l + 2)"
proof (induction r)
  case Nil
  then show ?case using match_here_line [of c l t] by (simp add: lazy_step_hit del: match_here.simps)
next
  case (Cons x r)
  then have "x \<noteq> c" by auto
  with Cons show ?case by (simp add: lazy_step_other del: match_here.simps)
qed

lemma match_here_two_lines_none:
  "count_list s c < 2 \<Longrightarrow> match_here [LazyAny, Lit c, LazyAny, Lit c] s = None"
proof (induction s)
  case Nil
  show ?case by simp
next
  case (Cons x s)
  show ?case
  proof (cases "x = c")
    case True
    with Cons.prems have z: "count_list s c = 0" by simp
    then have "c \<notin> set s" by (simp add: count_list_0_iff)
    then have a: "match_here [LazyAny, Lit c] s = None" by (rule match_here_line_none)
    from z have "match_here [LazyAny, Lit c, LazyAny, Lit c] s = None"
      using Cons.IH by simp
    with a True show ?thesis by (simp add: lazy_step_hit del: match_here.simps)
  next
    case False
    with Cons show ?thesis by (simp add: lazy_step_other del: match_here.simps)
  qed
qed

lemma two_occurrences:
  "2 \<le> count_list s c \<Longrightarrow> \<exists>r l t. s = r @ c # l @ c # t \<and> c \<notin> set r \<and> c \<notin> set l"
proof -
  assume a: "2 \<le> count_list s c"
  then have "c \<in> set s" by (metis count_list_0_iff not_numeral_le_zero)
  then obtain r u where s: "s = r @ c # u" "c \<notin> set r" by (meson split_list_first)
  then have "count_list r c = 0" by (simp add: count_list_0_iff)
  with a s have "1 \<le> count_list u c" by simp
  then have "c \<in> set u" by (metis count_list_0_iff not_one_le_zero)
  then obtain l t where "u = l @ c # t" "c \<notin> set l" by (meson split_list_first)
  with s show ?thesis by blast
qed

lemma re_search_from_skip:
  "\<forall>k<length pre. match_here pat (drop k (pre @ s)) = None \<Longrightarrow>
   re_search_from pat (pre @ s) i = re_search_from pat s (i + length pre)"
proof (induction pre arbitrary: i)
  case Nil
  show ?case by simp
next
  case (Cons x pre)
  from Cons.prems have h0: "match_here pat (x # pre @ s) = None" by fastforce
  from Cons.prems have "\<forall>k<length pre. match_here pat (drop k (pre @ s)) = None"
    by fastforce
  then have "re_search_from pat (pre @ s) (Suc i) = re_search_from pat s (Suc i + length pre)"
    by (rule Cons.IH)
  with h0 show ?case by simp
qed

lemma re_search_from_none:
  "\<forall>k\<le>length s. match_here pat (drop k s) = None \<Longrightarrow> re_search_from pat s i = None"
proof (induction s arbitrary: i)
  case Nil
  then show ?case by simp
next
  case (Cons x s)
  from Cons.prems have h0: "match_here pat (x # s) = None" by fastforce
  from Cons.prems have "\<forall>k\<le>length s. match_here pat (drop k s) = None" by fastforce
  then have "re_search_from pat s (Suc i) = None" by (rule Cons.IH)
  with h0 show ?case by simp
qed

lemma match_unreleased:
  "match_here unreleased_re s =
     (if prefix unreleased_marker s
      then map_option (\<lambda>n. length unreleased_marker + n)
             (match_here [LazyAny, Lit newline, LazyAny, Lit newline]
                (drop (length unreleased_marker) s))
      else None)"
  unfolding unreleased_re_def by (rule match_here_lits)

lemma two_lines_none_iff:
  "match_here [LazyAny, Lit c, LazyAny, Lit c] s = None \<longleftrightarrow> count_list s c < 2"
proof
  assume n: "match_here [LazyAny, Lit c, LazyAny, Lit c] s = None"
  show "count_list s c < 2"
  proof (rule ccontr)
    assume "\<not> count_list s c < 2"
    then have "2 \<le> count_list s c" by simp
    from two_occurrences [OF this] obtain r l t where
      s: "s = r @ c # l @ c # t" and r: "c \<notin> set r" and l: "c \<notin> set l"
      by (elim exE conjE)
    from match_here_two_lines [OF r l, of t] n show False
      unfolding s by simp
  qed
next
  assume "count_list s c < 2"
  then show "match_here [LazyAny, Lit c, LazyAny, Lit c] s = None"
    by (rule match_here_two_lines_none)
qed

lemma count_list_drop_le: "count_list (drop n s) c \<le> count_list s c"
proof -
  have "count_list (take n s @ drop n s) c = count_list (take n s) c + count_list (drop n s) c"
    by (rule count_list_append)
  then show ?thesis by simp
qed

lemma count_list_drop_mono:
  assumes "j \<le> k"
  shows "count_list (drop k s) c \<le> count_list (drop j s) c"
proof -
  from assms have "drop (k - j) (drop j s) = drop k s" by simp
  with count_list_drop_le [of "k - j" "drop j s" c] show ?thesis by (simp only:)
qed

lemma occurs_at_sublist:
  assumes "occurs_at m s k"
  shows "sublist m s"
proof -
  from assms obtain z where z: "drop k s = m @ z"
    unfolding occurs_at_def prefix_def by (elim exE)
  have "take k s @ drop k s = s" by (rule append_take_drop_id)
  then have "s = take k s @ m @ z" unfolding z by (rule sym)
  then show ?thesis unfolding sublist_def by (intro exI)
qed

lemma match_unreleased_none_iff:
  "match_here unreleased_re s = None \<longleftrightarrow>
     (\<not> prefix unreleased_marker s \<or>
      count_list (drop (length unreleased_marker) s) newline < 2)"
  unfolding match_unreleased
  by (simp add: two_lines_none_iff del: match_here.simps)

lemma re_search_from_hit:
  "match_here pat s = Some n \<Longrightarrow> re_search_from pat s i = Some (i, i + n)"
  by (cases s) simp_all

lemma re_search_unreleased:
  assumes D: "D = pre @ unreleased_marker @ r @ newline # l @ newline # post"
    and first: "first_occurrence unreleased_marker D (length pre)"
    and r: "newline \<notin> set r" and l: "newline \<notin> set l"
  shows "re_search unreleased_re D =
           Some (length pre, length pre + length unreleased_marker + length r + length l + 2)"
proof -
  let ?rest = "unreleased_marker @ r @ newline # l @ newline # post"
  have skip: "\<forall>k<length pre. match_here unreleased_re (drop k (pre @ ?rest)) = None"
  proof (intro allI impI)
    fix k assume "k < length pre"
    with first have "\<not> prefix unreleased_marker (drop k D)"
      unfolding first_occurrence_def occurs_at_def by blast
    then show "match_here unreleased_re (drop k (pre @ ?rest)) = None"
      unfolding D match_unreleased_none_iff by (rule disjI1)
  qed
  have "match_here [LazyAny, Lit newline, LazyAny, Lit newline] (r @ newline # l @ newline # post)
          = Some (length r + length l + 2)"
    using r l by (rule match_here_two_lines)
  then have here: "match_here unreleased_re ?rest =
                Some (length unreleased_marker + (length r + length l + 2))"
    unfolding match_unreleased by simp
  have "re_search_from unreleased_re (pre @ ?rest) 0 =
          re_search_from unreleased_re ?rest (0 + length pre)"
    using skip by (rule re_search_from_skip)
  also have "\<dots> = Some (0 + length pre,
      0 + length pre + (length unreleased_marker + (length r + length l + 2)))"
    using here by (rule re_search_from_hit)
  finally show ?thesis unfolding re_search_def D by simp
qed

lemma re_search_unreleased_none:
  assumes "\<forall>k. occurs_at unreleased_marker D k \<longrightarrow>
             count_list (drop (k + length unreleased_marker) D) newline < 2"
  shows "re_search unreleased_re D = None"
proof -
  have "\<forall>k\<le>length D. match_here unreleased_re (drop k D) = None"
  proof (intro allI impI)
    fix k
    show "match_here unreleased_re (drop k D) = None"
    proof (cases "occurs_at unreleased_marker D k")
      case True
      with assms have "count_list (drop (k + length unreleased_marker) D) newline < 2"
        by blast
      then have "count_list (drop (length unreleased_marker) (drop k D)) newline < 2"
        by (simp add: add.commute)
      then show ?thesis unfolding match_unreleased_none_iff by (rule disjI2)
    next
      case False
      then show ?thesis unfolding match_unreleased_none_iff occurs_at_def by (rule disjI1)
    qed
  qed
  then show ?thesis unfolding re_search_def by (rule re_search_from_none)
qed

lemma re_search_from_Some:
  "re_search_from pat s i0 = Some (i, p) \<Longrightarrow>
   \<exists>k n. i = i0 + k \<and> k \<le> length s \<and> match_here pat (drop k s) = Some n \<and> p = i + n \<and>
         (\<forall>j<k. match_here pat (drop j s) = None)"
proof (induction s arbitrary: i0)
  case Nil
  then obtain n where "match_here pat [] = Some n" "i = i0" "p = i0 + n"
    by (cases "match_here pat []") auto
  then show ?case by (intro exI [of _ 0] exI [of _ n]) simp
next
  case (Cons x s)
  show ?case
  proof (cases "match_here pat (x # s)")
    case (Some n)
    with Cons.prems have "i = i0" "p = i0 + n" by auto
    with Some show ?thesis by (intro exI [of _ 0] exI [of _ n]) simp
  next
    case None
    with Cons.prems have "re_search_from pat s (Suc i0) = Some (i, p)" by simp
    from Cons.IH [OF this] obtain k n where
      k1: "i = Suc i0 + k" and k2: "k \<le> length s"
      and k3: "match_here pat (drop k s) = Some n" and k4: "p = i + n"
      and k5: "\<forall>j<k. match_here pat (drop j s) = None" by (elim exE conjE)
    have k6: "\<forall>j<Suc k. match_here pat (drop j (x # s)) = None"
    proof (intro allI impI)
      fix j assume "j < Suc k"
      then show "match_here pat (drop j (x # s)) = None"
        using None k5 by (cases j) auto
    qed
    have "i = i0 + Suc k" using k1 by simp
    moreover have "Suc k \<le> length (x # s)" using k2 by simp
    moreover have "match_here pat (drop (Suc k) (x # s)) = Some n" using k3 by simp
    ultimately show ?thesis using k4 k6 by blast
  qed
qed

lemma re_search_unreleased_Some:
  assumes "re_search unreleased_re D = Some (i, p)"
  shows "\<exists>pre r l post.
           D = pre @ unreleased_marker @ r @ newline # l @ newline # post \<and>
           first_occurrence unreleased_marker D (length pre) \<and>
           newline \<notin> set r \<and> newline \<notin> set l \<and> i = length pre \<and>
           p = length pre + length unreleased_marker + length r + length l + 2"
proof -
  let ?m = "unreleased_marker"
  from assms have "re_search_from unreleased_re D 0 = Some (i, p)"
    unfolding re_search_def .
  from re_search_from_Some [OF this] obtain k n where
    ik: "i = 0 + k" and i: "k \<le> length D"
    and m0: "match_here unreleased_re (drop k D) = Some n" and p: "p = i + n"
    and before0: "\<forall>j<k. match_here unreleased_re (drop j D) = None"
    by (elim exE conjE)
  from ik have ki: "k = i" by simp
  note m = m0 [unfolded ki] and before = before0 [unfolded ki] and iD = i [unfolded ki]
  have nn: "match_here unreleased_re (drop i D) \<noteq> None" using m by simp
  then have pm: "prefix ?m (drop i D)"
    and cnt: "\<not> count_list (drop (length ?m) (drop i D)) newline < 2"
    unfolding match_unreleased_none_iff by blast+
  from pm obtain z where z: "drop i D = ?m @ z" unfolding prefix_def by (elim exE)
  from cnt have "2 \<le> count_list z newline" unfolding z by simp
  from two_occurrences [OF this] obtain r l post where
    rl: "z = r @ newline # l @ newline # post" and r: "newline \<notin> set r"
    and l: "newline \<notin> set l"
    by (elim exE conjE)
  define pre where "pre = take i D"
  have "pre @ drop i D = D" unfolding pre_def by (rule append_take_drop_id)
  then have D: "D = pre @ ?m @ r @ newline # l @ newline # post"
    unfolding z rl by (rule sym)
  have len: "length pre = i" unfolding pre_def using iD by simp
  have "match_here [LazyAny, Lit newline, LazyAny, Lit newline] z
          = Some (length r + length l + 2)"
    unfolding rl using r l by (rule match_here_two_lines)
  then have "match_here unreleased_re (drop i D) = Some (length ?m + (length r + length l + 2))"
    unfolding match_unreleased z by simp
  with m have "n = length ?m + (length r + length l + 2)" by simp
  with p len have pval: "p = length pre + length ?m + length r + length l + 2" by simp
  have nb: "\<forall>j<i. \<not> occurs_at ?m D j"
  proof (intro allI impI notI)
    fix j assume j: "j < i" and occ: "occurs_at ?m D j"
    from before j have "match_here unreleased_re (drop j D) = None" by blast
    then have "\<not> prefix ?m (drop j D) \<or> count_list (drop (length ?m) (drop j D)) newline < 2"
      unfolding match_unreleased_none_iff .
    with occ have a: "count_list (drop (length ?m) (drop j D)) newline < 2"
      unfolding occurs_at_def by blast
    have "j + length ?m \<le> i + length ?m" using j by simp
    then have "count_list (drop (i + length ?m) D) newline
                     \<le> count_list (drop (j + length ?m) D) newline"
      by (rule count_list_drop_mono)
    moreover have "drop (length ?m) (drop j D) = drop (j + length ?m) D"
      by (simp add: add.commute)
    moreover have "drop (length ?m) (drop i D) = drop (i + length ?m) D"
      by (simp add: add.commute)
    ultimately show False using a cnt by simp
  qed
  have "occurs_at ?m D i" unfolding occurs_at_def by (rule pm)
  with nb have "first_occurrence ?m D (length pre)"
    unfolding first_occurrence_def len by blast
  with D r l len pval show ?thesis by blast
qed

lemma new_content_block:
  "new_content content p entry = take p content @ inserted_block entry @ drop p content"
  by (simp add: new_content_def inserted_block_def newline_def)

lemma universal_newlines_no_cr:
  "carriage_return \<notin> set B \<Longrightarrow> universal_newlines B = B"
  by (induction B rule: universal_newlines.induct) auto

lemma prefix_universal_newlines:
  assumes "carriage_return \<notin> set m" and "newline \<notin> set m"
  shows "prefix m (universal_newlines B) \<Longrightarrow> prefix m B"
  using assms
proof (induction B arbitrary: m rule: universal_newlines.induct)
  case 1
  then show ?case by simp
next
  case (2 c)
  then show ?case by (cases m) (auto split: if_splits)
next
  case (3 c d cs)
  show ?case
  proof (cases m)
    case Nil
    then show ?thesis by simp
  next
    case (Cons x m')
    show ?thesis
    proof (cases "c = carriage_return")
      case True
      with "3.prems" Cons show ?thesis by (auto split: if_splits)
    next
      case False
      with "3.prems" Cons have x: "x = c" and p: "prefix m' (universal_newlines (d # cs))"
        by simp_all
      from "3.prems" Cons have "carriage_return \<notin> set m'" "newline \<notin> set m'" by simp_all
      with "3.IH"(3) [OF False p] have "prefix m' (d # cs)" by simp
      with x Cons show ?thesis by simp
    qed
  qed
qed

lemma sublist_universal_newlines:
  assumes "carriage_return \<notin> set m" and "newline \<notin> set m"
  shows "sublist m (universal_newlines B) \<Longrightarrow> sublist m B"
proof (induction B rule: universal_newlines.induct)
  case 1
  then show ?case by simp
next
  case (2 c)
  show ?case
  proof (cases "c = carriage_return")
    case True
    with "2.prems" have "sublist m [newline]" by simp
    then have "m = [] \<or> m = [newline]"
      by (auto simp: sublist_Cons_right prefix_Cons)
    with assms(2) have "m = []" by auto
    then show ?thesis by simp
  next
    case False
    with "2.prems" show ?thesis by simp
  qed
next
  case (3 c d cs)
  show ?case
  proof (cases "c = carriage_return")
    case True
    show ?thesis
    proof (cases "d = newline")
      case dn: True
      with True "3.prems" have "sublist m (newline # universal_newlines cs)" by simp
      then have "prefix m (newline # universal_newlines cs) \<or> sublist m (universal_newlines cs)"
        by (simp add: sublist_Cons_right)
      moreover have "m = []" if "prefix m (newline # universal_newlines cs)"
        using that assms(2) by (cases m) auto
      ultimately have "sublist m (universal_newlines cs)" by auto
      with "3.IH"(1) [OF True dn] have "sublist m cs" by simp
      then show ?thesis by (simp add: sublist_Cons_right)
    next
      case dn: False
      with True "3.prems" have "sublist m (newline # universal_newlines (d # cs))" by simp
      then have "prefix m (newline # universal_newlines (d # cs)) \<or>
                 sublist m (universal_newlines (d # cs))"
        by (simp add: sublist_Cons_right)
      moreover have "m = []" if "prefix m (newline # universal_newlines (d # cs))"
        using that assms(2) by (cases m) auto
      ultimately have "sublist m (universal_newlines (d # cs))" by auto
      with "3.IH"(2) [OF True dn] have "sublist m (d # cs)" by simp
      then show ?thesis by (simp add: sublist_Cons_right [of m c])
    qed
  next
    case False
    with "3.prems" have "sublist m (c # universal_newlines (d # cs))" by simp
    then have "prefix m (c # universal_newlines (d # cs)) \<or>
               sublist m (universal_newlines (d # cs))"
      by (simp add: sublist_Cons_right)
    then show ?thesis
    proof
      assume "prefix m (c # universal_newlines (d # cs))"
      then have "prefix m (universal_newlines (c # d # cs))" using False by simp
      with assms have "prefix m (c # d # cs)" by (rule prefix_universal_newlines)
      then show ?thesis by (rule prefix_imp_sublist)
    next
      assume "sublist m (universal_newlines (d # cs))"
      with "3.IH"(3) [OF False] have "sublist m (d # cs)" by simp
      then show ?thesis by (simp add: sublist_Cons_right [of m c])
    qed
  qed
qed

lemma update_changelog_found:
  assumes "files s ''CHANGELOG.md'' = Some B" and "decodable w B"
    and "re_search unreleased_re (universal_newlines B) = Some (i, p)"
  shows "update_changelog w E s =
           (Inr (), s\<lparr>files := (files s)(''CHANGELOG.md'' \<mapsto>
                                 new_content (universal_newlines B) p E),
                      trace := trace s @ [Print ''Updating CHANGELOG.md'',
                        FileWrite ''CHANGELOG.md'' (new_content (universal_newlines B) p E)]\<rparr>)"
  using assms
  by (simp add: update_changelog_def then_do_def print_def read_file_def write_file_def emit_def)

lemma update_changelog_not_found:
  assumes "files s ''CHANGELOG.md'' = Some B" and "decodable w B"
    and "re_search unreleased_re (universal_newlines B) = None"
  shows "update_changelog w E s =
           (Inl (SystemExit 1),
            s\<lparr>trace := trace s @ [Print ''Updating CHANGELOG.md'',
                Print ''Error: Could not find [Unreleased] section in CHANGELOG.md'']\<rparr>)"
  using assms
  by (simp add: update_changelog_def then_do_def print_def read_file_def sys_exit_def emit_def)

lemma update_changelog_undecodable:
  assumes "files s ''CHANGELOG.md'' = Some B" and "\<not> decodable w B"
  shows "update_changelog w E s =
           (Inl (Uncaught (UnicodeDecodeError ''CHANGELOG.md'')),
            s\<lparr>trace := trace s @ [Print ''Updating CHANGELOG.md'']\<rparr>)"
  using assms
  by (simp add: update_changelog_def then_do_def print_def read_file_def emit_def)


lemma prefix_append_long:
  "length m \<le> length u \<Longrightarrow> prefix m (u @ x) = prefix m u"
  by (auto simp: prefix_append)

lemma occurs_at_append:
  assumes "j + length m \<le> length a"
  shows "occurs_at m (a @ x) j = occurs_at m a j"
proof -
  from assms have "length m \<le> length (drop j a)" by simp
  then have "prefix m (drop j a @ x) = prefix m (drop j a)" by (rule prefix_append_long)
  moreover from assms have "drop j (a @ x) = drop j a @ x" by simp
  ultimately show ?thesis unfolding occurs_at_def by simp
qed

lemma first_occurrence_append:
  assumes "k + length m \<le> length a"
  shows "first_occurrence m (a @ x) k = first_occurrence m a k"
proof -
  have "occurs_at m (a @ x) j = occurs_at m a j" if "j \<le> k" for j
    using that assms by (intro occurs_at_append) simp
  then show ?thesis unfolding first_occurrence_def by auto
qed

lemma update_changelog_Inr:
  assumes cl: "files s ''CHANGELOG.md'' = Some B"
    and ok: "update_changelog w E s = (Inr (), s')"
  shows "\<exists>i p. decodable w B \<and>
           re_search unreleased_re (universal_newlines B) = Some (i, p) \<and>
           s' = s\<lparr>files := (files s)(''CHANGELOG.md'' \<mapsto>
                                 new_content (universal_newlines B) p E),
                  trace := trace s @ [Print ''Updating CHANGELOG.md'',
                    FileWrite ''CHANGELOG.md'' (new_content (universal_newlines B) p E)]\<rparr>"
proof (cases "decodable w B")
  case False
  from update_changelog_undecodable [OF cl False, of E] ok show ?thesis by simp
next
  case True
  show ?thesis
  proof (cases "re_search unreleased_re (universal_newlines B)")
    case None
    from update_changelog_not_found [OF cl True None, of E] ok show ?thesis by simp
  next
    case (Some ip)
    obtain i p where ip: "ip = (i, p)" by (cases ip)
    with Some have f: "re_search unreleased_re (universal_newlines B) = Some (i, p)" by simp
    from update_changelog_found [OF cl True f, of E] ok
    have "s' = s\<lparr>files := (files s)(''CHANGELOG.md'' \<mapsto>
                                 new_content (universal_newlines B) p E),
                  trace := trace s @ [Print ''Updating CHANGELOG.md'',
                    FileWrite ''CHANGELOG.md'' (new_content (universal_newlines B) p E)]\<rparr>"
      by simp
    with True f show ?thesis by (intro exI conjI)
  qed
qed

lemma re_search_spliced:
  assumes f: "re_search unreleased_re D = Some (i, p)"
  shows "re_search unreleased_re (take p D @ x) = Some (i, p)"
proof -
  let ?m = "unreleased_marker"
  from re_search_unreleased_Some [OF f] obtain pre r l post where
    D: "D = pre @ ?m @ r @ newline # l @ newline # post"
    and first: "first_occurrence ?m D (length pre)"
    and r: "newline \<notin> set r" and l: "newline \<notin> set l" and i: "i = length pre"
    and p: "p = length pre + length ?m + length r + length l + 2"
    by (elim exE conjE)
  define a where "a = pre @ ?m @ r @ newline # l @ [newline]"
  have Da: "D = a @ post" unfolding D a_def by simp
  have pa: "p = length a" unfolding p a_def by simp
  have ta: "take p D = a" unfolding Da pa by simp
  have le: "length pre + length ?m \<le> length a" unfolding a_def by simp
  have "first_occurrence ?m (a @ post) (length pre)" using first unfolding Da .
  then have "first_occurrence ?m a (length pre)"
    unfolding first_occurrence_append [OF le] .
  then have first': "first_occurrence ?m (a @ x) (length pre)"
    unfolding first_occurrence_append [OF le] .
  have ax: "a @ x = pre @ ?m @ r @ newline # l @ newline # x" unfolding a_def by simp
  have "re_search unreleased_re (a @ x) =
          Some (length pre, length pre + length ?m + length r + length l + 2)"
    using ax first' r l by (rule re_search_unreleased)
  then have "re_search unreleased_re (a @ x) = Some (i, p)" unfolding i p .
  then show ?thesis unfolding ta .
qed

lemma remove_block_append:
  "remove_block (length u) (length b) (u @ b @ v) = u @ v"
  by (simp add: remove_block_def)

lemma block_at_append:
  "take (length b) (drop (length u) (u @ b @ v)) = b"
  by simp


section \<open>The changelog splice\<close>

text \<open>
  Claim C1, as stated, fails: the changelog is read in text mode, so a file whose lines
  end with CR LF is read with LF line ends and written back that way. On the example
  changelog with CR LF line ends the line after the marker's ends at byte 34, and what
  is written is not the file with the block inserted there: every CR is gone.
\<close>

theorem update_changelog_normalises_line_ends:
  "update_changelog example_world ''## [1.0.1]''
     \<lparr>files = [''CHANGELOG.md'' \<mapsto> example_crlf_changelog], trace = []\<rparr>
   = (Inr (),
      \<lparr>files = [''CHANGELOG.md'' \<mapsto> ''# Changelog\<newline>\<newline>## [Unreleased]\<newline>\<newline>\<newline>## [1.0.1]\<newline>\<newline>## [1.0.0]\<newline>''],
       trace = [Print ''Updating CHANGELOG.md'',
                FileWrite ''CHANGELOG.md'' ''# Changelog\<newline>\<newline>## [Unreleased]\<newline>\<newline>\<newline>## [1.0.1]\<newline>\<newline>## [1.0.0]\<newline>'']\<rparr>) \<and>
   take 34 example_crlf_changelog =
     ''# Changelog'' @ [carriage_return, newline, carriage_return, newline] @
     ''## [Unreleased]'' @ [carriage_return, newline, carriage_return, newline] \<and>
   ''# Changelog\<newline>\<newline>## [Unreleased]\<newline>\<newline>\<newline>## [1.0.1]\<newline>\<newline>## [1.0.0]\<newline>''
     \<noteq> take 34 example_crlf_changelog @ inserted_block ''## [1.0.1]'' @
       drop 34 example_crlf_changelog"
  by (simp add: update_changelog_def then_do_def print_def read_file_def write_file_def
        emit_def example_world_def example_crlf_changelog_def carriage_return_def newline_def
        re_search_def unreleased_re_def unreleased_marker_def new_content_def
        inserted_block_def)

text \<open>
  Claim C1, amended. Let the changelog decode, and let its text \<open>D\<close> as the script reads it
  (CR LF and CR read as LF) hold the marker \<open>## [Unreleased]\<close>, first at the end of
  \<open>pre\<close>, followed by the rest \<open>r\<close> of the marker's line and by one more line \<open>l\<close>, both
  ended by a newline; let \<open>p\<close> be the position after that second line. Then
  \<open>update_changelog\<close> returns normally and writes \<open>D[..p]\<close>, a newline, the entry, two
  newlines and \<open>D[p..]\<close>. When the file holds no CR, \<open>D\<close> is the file itself, so every
  byte outside the insertion point is unchanged.
\<close>

theorem update_changelog_inserts_entry:
  assumes cl: "files s ''CHANGELOG.md'' = Some B"
    and dec: "decodable w B"
    and T: "D = universal_newlines B"
    and D: "D = pre @ unreleased_marker @ r @ newline # l @ newline # post"
    and first: "first_occurrence unreleased_marker D (length pre)"
    and r: "newline \<notin> set r" and l: "newline \<notin> set l"
    and p: "p = length (pre @ unreleased_marker @ r @ newline # l @ [newline])"
  shows "\<exists>s'. update_changelog w E s = (Inr (), s') \<and>
           files s' = (files s)(''CHANGELOG.md'' \<mapsto>
                        take p D @ [newline] @ E @ [newline, newline] @ drop p D) \<and>
           take p D = pre @ unreleased_marker @ r @ newline # l @ [newline] \<and>
           drop p D = post \<and>
           (carriage_return \<notin> set B \<longrightarrow> D = B) \<and>
           trace s' = trace s @ [Print ''Updating CHANGELOG.md'',
             FileWrite ''CHANGELOG.md'' (take p D @ [newline] @ E @ [newline, newline] @ drop p D)]"
proof -
  have "re_search unreleased_re D =
          Some (length pre, length pre + length unreleased_marker + length r + length l + 2)"
    using D first r l by (rule re_search_unreleased)
  moreover have "length pre + length unreleased_marker + length r + length l + 2 = p"
    unfolding p by simp
  ultimately have "re_search unreleased_re (universal_newlines B) = Some (length pre, p)"
    unfolding T by simp
  with cl dec have
    "update_changelog w E s =
       (Inr (), s\<lparr>files := (files s)(''CHANGELOG.md'' \<mapsto>
                             new_content (universal_newlines B) p E),
                  trace := trace s @ [Print ''Updating CHANGELOG.md'',
                    FileWrite ''CHANGELOG.md'' (new_content (universal_newlines B) p E)]\<rparr>)"
    by (rule update_changelog_found)
  moreover have "new_content (universal_newlines B) p E
                   = take p D @ [newline] @ E @ [newline, newline] @ drop p D"
    unfolding T by (simp add: new_content_def newline_def)
  moreover have "take (length (pre @ unreleased_marker @ r @ newline # l @ [newline]))
                   ((pre @ unreleased_marker @ r @ newline # l @ [newline]) @ post)
                 = pre @ unreleased_marker @ r @ newline # l @ [newline]"
    by (rule append_eq_conv_conj [THEN iffD1, THEN conjunct1, symmetric]) (rule refl)
  then have tk: "take p (pre @ unreleased_marker @ r @ newline # l @ newline # post)
               = pre @ unreleased_marker @ r @ newline # l @ [newline]"
    unfolding p by simp
  moreover have "drop (length (pre @ unreleased_marker @ r @ newline # l @ [newline]))
                   ((pre @ unreleased_marker @ r @ newline # l @ [newline]) @ post) = post"
    by (rule append_eq_conv_conj [THEN iffD1, THEN conjunct2, symmetric]) (rule refl)
  then have dr: "drop p (pre @ unreleased_marker @ r @ newline # l @ newline # post) = post"
    unfolding p by simp
  have td: "take p D = pre @ unreleased_marker @ r @ newline # l @ [newline]" "drop p D = post"
    using tk dr D by simp_all
  have nocr: "carriage_return \<notin> set B \<longrightarrow> D = B"
    unfolding T by (simp add: universal_newlines_no_cr)
  from calculation td nocr show ?thesis by simp
qed

text \<open>
  The theorem at a changelog with a title, the marker, a blank line and one release,
  and LF line ends.
\<close>

theorem update_changelog_inserts_entry_witness:
  "\<exists>s'. update_changelog example_world ''## [1.0.1]''
          \<lparr>files = [''CHANGELOG.md'' \<mapsto> ''# Changelog\<newline>\<newline>## [Unreleased]\<newline>\<newline>## [1.0.0]\<newline>''],
           trace = []\<rparr> = (Inr (), s') \<and>
        files s' ''CHANGELOG.md'' =
          Some ''# Changelog\<newline>\<newline>## [Unreleased]\<newline>\<newline>\<newline>## [1.0.1]\<newline>\<newline>## [1.0.0]\<newline>''"
proof -
  let ?D = "''# Changelog\<newline>\<newline>## [Unreleased]\<newline>\<newline>## [1.0.0]\<newline>''"
  let ?s = "\<lparr>files = [''CHANGELOG.md'' \<mapsto> ?D], trace = []\<rparr>"
  have h1: "files ?s ''CHANGELOG.md'' = Some ?D" by simp
  have h0: "decodable example_world ?D" by (simp add: example_world_def)
  have hT: "?D = universal_newlines ?D"
    by (simp add: carriage_return_def newline_def)
  have h2: "?D = ''# Changelog\<newline>\<newline>'' @ unreleased_marker @ [] @ newline # [] @ newline # ''## [1.0.0]\<newline>''"
    by (simp add: unreleased_marker_def newline_def)
  have h3: "first_occurrence unreleased_marker ?D (length ''# Changelog\<newline>\<newline>'')"
    by (simp add: first_occurrence_def occurs_at_def unreleased_marker_def All_less_Suc)
  have h4: "newline \<notin> set []" by simp
  have h5: "(30::nat) = length (''# Changelog\<newline>\<newline>'' @ unreleased_marker @ [] @ newline # [] @ [newline])"
    by (simp add: unreleased_marker_def)
  from update_changelog_inserts_entry [OF h1 h0 hT h2 h3 h4 h4 h5, of "''## [1.0.1]''"]
  show ?thesis by (auto simp: newline_def unreleased_marker_def)
qed

text \<open>
  Claim C2. When the changelog holds no \<open>## [Unreleased]\<close> marker, \<open>update_changelog\<close>
  does not return: the files are as they were. When the file decodes it leaves by
  \<open>sys.exit(1)\<close> and all it did was print two lines; when the file does not decode, the
  \<open>UnicodeDecodeError\<close> of the read ends the process, with status 1 as well.
\<close>

theorem update_changelog_no_marker:
  assumes cl: "files s ''CHANGELOG.md'' = Some D"
    and none: "\<not> sublist unreleased_marker D"
  shows "\<exists>a s'. update_changelog w E s = (Inl a, s') \<and>
           files s' = files s \<and>
           (if decodable w D
            then a = SystemExit 1 \<and>
                 trace s' = trace s @ [Print ''Updating CHANGELOG.md'',
                   Print ''Error: Could not find [Unreleased] section in CHANGELOG.md'']
            else a = Uncaught (UnicodeDecodeError ''CHANGELOG.md'') \<and>
                 trace s' = trace s @ [Print ''Updating CHANGELOG.md''])"
proof (cases "decodable w D")
  case False
  from update_changelog_undecodable [OF cl False, of E] False show ?thesis by simp
next
  case True
  have m: "carriage_return \<notin> set unreleased_marker" "newline \<notin> set unreleased_marker"
    by (simp_all add: unreleased_marker_def carriage_return_def newline_def)
  from none sublist_universal_newlines [OF m, of D]
  have none': "\<not> sublist unreleased_marker (universal_newlines D)" by blast
  have "\<forall>k. occurs_at unreleased_marker (universal_newlines D) k \<longrightarrow>
             count_list (drop (k + length unreleased_marker) (universal_newlines D)) newline < 2"
    using none' occurs_at_sublist by blast
  then have "re_search unreleased_re (universal_newlines D) = None"
    by (rule re_search_unreleased_none)
  from update_changelog_not_found [OF cl True this, of E] True show ?thesis by simp
qed

text \<open>The theorem at a changelog that has a title and one release only.\<close>

theorem update_changelog_no_marker_witness:
  "\<exists>s'. update_changelog example_world ''## [1.0.1]''
          \<lparr>files = [''CHANGELOG.md'' \<mapsto> ''# Changelog\<newline>\<newline>## [1.0.0]\<newline>''], trace = []\<rparr>
          = (Inl (SystemExit 1), s') \<and>
        files s' ''CHANGELOG.md'' = Some ''# Changelog\<newline>\<newline>## [1.0.0]\<newline>''"
proof -
  let ?D = "''# Changelog\<newline>\<newline>## [1.0.0]\<newline>''"
  let ?s = "\<lparr>files = [''CHANGELOG.md'' \<mapsto> ?D], trace = []\<rparr>"
  have h1: "files ?s ''CHANGELOG.md'' = Some ?D" by simp
  have h2: "\<not> sublist unreleased_marker ?D"
    by (simp add: unreleased_marker_def sublist_Cons_right)
  have h3: "decodable example_world ?D" by (simp add: example_world_def)
  from update_changelog_no_marker [OF h1 h2, of example_world "''## [1.0.1]''"] h3
  show ?thesis by auto
qed



text \<open>
  Claim C6, as stated, fails for the same reason as C1: on the example changelog with
  CR LF line ends the splice inserts its block at position 30 of the text it read, and
  removing that block from what it wrote gives the text with LF line ends, not the
  file.
\<close>

theorem update_changelog_removal_normalised:
  "update_changelog example_world ''## [1.0.1]''
     \<lparr>files = [''CHANGELOG.md'' \<mapsto> example_crlf_changelog], trace = []\<rparr>
   = (Inr (),
      \<lparr>files = [''CHANGELOG.md'' \<mapsto> ''# Changelog\<newline>\<newline>## [Unreleased]\<newline>\<newline>\<newline>## [1.0.1]\<newline>\<newline>## [1.0.0]\<newline>''],
       trace = [Print ''Updating CHANGELOG.md'',
                FileWrite ''CHANGELOG.md'' ''# Changelog\<newline>\<newline>## [Unreleased]\<newline>\<newline>\<newline>## [1.0.1]\<newline>\<newline>## [1.0.0]\<newline>'']\<rparr>) \<and>
   take (length (inserted_block ''## [1.0.1]''))
     (drop 30 ''# Changelog\<newline>\<newline>## [Unreleased]\<newline>\<newline>\<newline>## [1.0.1]\<newline>\<newline>## [1.0.0]\<newline>'')
     = inserted_block ''## [1.0.1]'' \<and>
   remove_block 30 (length (inserted_block ''## [1.0.1]''))
     ''# Changelog\<newline>\<newline>## [Unreleased]\<newline>\<newline>\<newline>## [1.0.1]\<newline>\<newline>## [1.0.0]\<newline>''
     = ''# Changelog\<newline>\<newline>## [Unreleased]\<newline>\<newline>## [1.0.0]\<newline>'' \<and>
   ''# Changelog\<newline>\<newline>## [Unreleased]\<newline>\<newline>## [1.0.0]\<newline>'' \<noteq> example_crlf_changelog"
  by (simp add: update_changelog_def then_do_def print_def read_file_def write_file_def
        emit_def example_world_def example_crlf_changelog_def carriage_return_def newline_def
        re_search_def unreleased_re_def unreleased_marker_def new_content_def
        inserted_block_def remove_block_def)

text \<open>
  Claim C6, amended. Whenever \<open>update_changelog\<close> succeeds on a changelog \<open>B\<close>, the text
  \<open>D'\<close> it wrote holds the inserted block (a newline, the entry, two newlines) at the
  insertion point \<open>p\<close>, and removing that block there gives back the text as it was read
  (\<open>B\<close> with CR LF and CR turned into LF), which is \<open>B\<close> itself, byte for byte, when \<open>B\<close>
  holds no CR. The search finds the same insertion point in \<open>D'\<close>, so the text read is
  determined by \<open>D'\<close> and the entry: for a given entry the splice is injective on the
  texts read.
\<close>

theorem update_changelog_invertible:
  assumes cl: "files s ''CHANGELOG.md'' = Some B"
    and ok: "update_changelog w E s = (Inr (), s')"
  shows "\<exists>i p D'. files s' ''CHANGELOG.md'' = Some D' \<and>
           re_search unreleased_re (universal_newlines B) = Some (i, p) \<and>
           re_search unreleased_re D' = Some (i, p) \<and>
           take (length (inserted_block E)) (drop p D') = inserted_block E \<and>
           remove_block p (length (inserted_block E)) D' = universal_newlines B \<and>
           (carriage_return \<notin> set B \<longrightarrow>
              remove_block p (length (inserted_block E)) D' = B) \<and>
           (\<forall>w2 s2 B2 s2'. files s2 ''CHANGELOG.md'' = Some B2 \<and>
                update_changelog w2 E s2 = (Inr (), s2') \<and>
                files s2' ''CHANGELOG.md'' = Some D' \<longrightarrow>
                universal_newlines B2 = universal_newlines B)"
proof -
  let ?b = "inserted_block E"
  let ?D = "universal_newlines B"
  have removal: "remove_block q (length ?b) (new_content X q E) = X
                 \<and> take (length ?b) (drop q (new_content X q E)) = ?b"
    if "q \<le> length X" for q X
  proof -
    have len: "length (take q X) = q" using that by simp
    have "remove_block (length (take q X)) (length ?b) (take q X @ ?b @ drop q X)
            = take q X @ drop q X"
      by (rule remove_block_append)
    moreover have "take (length ?b) (drop (length (take q X)) (take q X @ ?b @ drop q X)) = ?b"
      by (rule block_at_append)
    ultimately show ?thesis unfolding new_content_block len by simp
  qed
  have bound: "q \<le> length X" if "re_search unreleased_re X = Some (j, q)" for j q X
  proof -
    from re_search_unreleased_Some [OF that] obtain pre r l post where
      "X = pre @ unreleased_marker @ r @ newline # l @ newline # post"
      "q = length pre + length unreleased_marker + length r + length l + 2"
      by (elim exE conjE)
    then show ?thesis by simp
  qed
  from update_changelog_Inr [OF cl ok] obtain i p where
    f: "re_search unreleased_re ?D = Some (i, p)"
    and fs: "s' = s\<lparr>files := (files s)(''CHANGELOG.md'' \<mapsto> new_content ?D p E),
                  trace := trace s @ [Print ''Updating CHANGELOG.md'',
                    FileWrite ''CHANGELOG.md'' (new_content ?D p E)]\<rparr>"
    by (elim exE conjE)
  define D' where "D' = new_content ?D p E"
  have 1: "files s' ''CHANGELOG.md'' = Some D'" unfolding fs D'_def by simp
  have 2: "re_search unreleased_re D' = Some (i, p)"
    unfolding D'_def new_content_block by (rule re_search_spliced [OF f])
  have 3: "take (length ?b) (drop p D') = ?b" and 4: "remove_block p (length ?b) D' = ?D"
    unfolding D'_def using removal [OF bound [OF f]] by simp_all
  have 5: "carriage_return \<notin> set B \<longrightarrow> remove_block p (length ?b) D' = B"
    unfolding 4 by (simp add: universal_newlines_no_cr)
  have 6: "universal_newlines B2 = ?D" if a: "files s2 ''CHANGELOG.md'' = Some B2"
    and b: "update_changelog w2 E s2 = (Inr (), s2')"
    and c: "files s2' ''CHANGELOG.md'' = Some D'" for w2 s2 B2 s2'
  proof -
    from update_changelog_Inr [OF a b] obtain i2 p2 where
      f2: "re_search unreleased_re (universal_newlines B2) = Some (i2, p2)"
      and fs2: "s2' = s2\<lparr>files := (files s2)(''CHANGELOG.md'' \<mapsto>
                                  new_content (universal_newlines B2) p2 E),
                  trace := trace s2 @ [Print ''Updating CHANGELOG.md'',
                    FileWrite ''CHANGELOG.md'' (new_content (universal_newlines B2) p2 E)]\<rparr>"
      by (elim exE conjE)
    from c have eq: "new_content (universal_newlines B2) p2 E = D'" unfolding fs2 by simp
    have "re_search unreleased_re (new_content (universal_newlines B2) p2 E) = Some (i2, p2)"
      unfolding new_content_block by (rule re_search_spliced [OF f2])
    with 2 eq have pp: "p2 = p" by simp
    have "remove_block p2 (length ?b) (new_content (universal_newlines B2) p2 E)
            = universal_newlines B2"
      using removal [OF bound [OF f2]] by simp
    with eq pp 4 show ?thesis by simp
  qed
  from 1 f 2 3 4 5 6 show ?thesis by blast
qed

text \<open>The theorem at the changelog of the first witness: 30 is its insertion point.\<close>

theorem update_changelog_invertible_witness:
  "update_changelog example_world ''## [1.0.1]''
     \<lparr>files = [''CHANGELOG.md'' \<mapsto> ''# Changelog\<newline>\<newline>## [Unreleased]\<newline>\<newline>## [1.0.0]\<newline>''],
      trace = []\<rparr>
   = (Inr (),
      \<lparr>files = [''CHANGELOG.md'' \<mapsto> ''# Changelog\<newline>\<newline>## [Unreleased]\<newline>\<newline>\<newline>## [1.0.1]\<newline>\<newline>## [1.0.0]\<newline>''],
       trace = [Print ''Updating CHANGELOG.md'',
                FileWrite ''CHANGELOG.md'' ''# Changelog\<newline>\<newline>## [Unreleased]\<newline>\<newline>\<newline>## [1.0.1]\<newline>\<newline>## [1.0.0]\<newline>'']\<rparr>) \<and>
   carriage_return \<notin> set ''# Changelog\<newline>\<newline>## [Unreleased]\<newline>\<newline>## [1.0.0]\<newline>'' \<and>
   remove_block 30 (length (inserted_block ''## [1.0.1]''))
     ''# Changelog\<newline>\<newline>## [Unreleased]\<newline>\<newline>\<newline>## [1.0.1]\<newline>\<newline>## [1.0.0]\<newline>''
   = ''# Changelog\<newline>\<newline>## [Unreleased]\<newline>\<newline>## [1.0.0]\<newline>''"
proof -
  let ?D = "''# Changelog\<newline>\<newline>## [Unreleased]\<newline>\<newline>## [1.0.0]\<newline>''"
  let ?D' = "''# Changelog\<newline>\<newline>## [Unreleased]\<newline>\<newline>\<newline>## [1.0.1]\<newline>\<newline>## [1.0.0]\<newline>''"
  let ?s = "\<lparr>files = [''CHANGELOG.md'' \<mapsto> ?D], trace = []\<rparr>"
  let ?s' = "\<lparr>files = [''CHANGELOG.md'' \<mapsto> ?D'],
       trace = [Print ''Updating CHANGELOG.md'', FileWrite ''CHANGELOG.md'' ?D']\<rparr>"
  have h1: "files ?s ''CHANGELOG.md'' = Some ?D" by simp
  have h0: "decodable example_world ?D" by (simp add: example_world_def)
  have nocr: "carriage_return \<notin> set ?D" by (simp add: carriage_return_def)
  have u: "universal_newlines ?D = ?D" using nocr by (rule universal_newlines_no_cr)
  have f: "re_search unreleased_re (universal_newlines ?D) = Some (13, 30)"
    unfolding u
    by (simp add: re_search_def unreleased_re_def unreleased_marker_def newline_def)
  have h2: "update_changelog example_world ''## [1.0.1]'' ?s = (Inr (), ?s')"
    using update_changelog_found [OF h1 h0 f, of "''## [1.0.1]''"] unfolding u
    by (simp add: new_content_def)
  from update_changelog_invertible [OF h1 h2] obtain i p D' where
    a: "files ?s' ''CHANGELOG.md'' = Some D'"
    and b: "re_search unreleased_re (universal_newlines ?D) = Some (i, p)"
    and c: "carriage_return \<notin> set ?D \<longrightarrow>
              remove_block p (length (inserted_block ''## [1.0.1]'')) D' = ?D"
    by blast
  from a have "D' = ?D'" by simp
  moreover from b f have "p = 30" by simp
  ultimately show ?thesis using c h2 nocr by simp
qed

section \<open>The steps of the run\<close>

lemma run_command_nonzero:
  assumes "returncode (shell w cmd) \<noteq> 0"
  shows "run_command w cmd True s =
           (Inl (Uncaught (CalledProcessError cmd (returncode (shell w cmd)))),
            s\<lparr>trace := trace s @ [Print (''Running: '' @ cmd), Run cmd]\<rparr>)"
  using assms
  by (simp add: run_command_def then_do_def print_def subprocess_run_def emit_def Let_def)

lemma run_command_zero:
  assumes "returncode (shell w cmd) = 0"
  shows "run_command w cmd True s =
           (Inr (strip (stdout (shell w cmd))),
            s\<lparr>trace := trace s @ [Print (''Running: '' @ cmd), Run cmd]\<rparr>)"
  using assms
  by (simp add: run_command_def then_do_def print_def subprocess_run_def emit_def Let_def
        ret_def)

lemma get_pr_details_unfold:
  "get_pr_details w b h =
     then_do (run_command w (git_log_command b h) True)
       (\<lambda>log. ret \<lparr>title = getenv_default w ''PR_TITLE'' '''',
                    body = getenv_default w ''PR_BODY'' ''No description provided'',
                    commits = log\<rparr>)"
  by (simp add: get_pr_details_def git_log_command_def Let_def)

lemma analyze_version_bump_error:
  assumes key: "\<not> falsy (getenv w ''ANTHROPIC_API_KEY'')"
    and err: "api_error w (prompt w cv pr) = Some msg"
  shows "analyze_version_bump w cv pr s =
           (Inl (SystemExit 1),
            s\<lparr>trace := trace s @ [ApiCall (prompt w cv pr)] @ raw_response w (prompt w cv pr) @
                 [Print (''Error calling Claude API: '' @ msg), Traceback (ApiException msg)]\<rparr>)"
  using assms
  by (auto simp: analyze_version_bump_def api_error_def raw_response_def api_failed_def
        then_do_def print_def sys_exit_def emit_def Let_def
        split: api_outcome.splits list.splits content_block.splits sum.splits)

lemma analyze_version_bump_valid:
  assumes key: "\<not> falsy (getenv w ''ANTHROPIC_API_KEY'')"
    and msg: "llm w (prompt w cv pr) = ApiMessage (TextBlock content # rest)"
    and valid: "model_validate_json w content = Inr va"
  shows "analyze_version_bump w cv pr s =
           (Inr (version_bump va, new_version va, changelog_entry va),
            s\<lparr>trace := trace s @ [ApiCall (prompt w cv pr),
                                   Print (''Claude response: '' @ content)]\<rparr>)"
  using assms
  by (simp add: analyze_version_bump_def then_do_def print_def ret_def emit_def Let_def)

lemma analyze_version_bump_no_key:
  assumes "falsy (getenv w ''ANTHROPIC_API_KEY'')"
  shows "analyze_version_bump w cv pr s =
           (Inl (SystemExit 1),
            s\<lparr>trace := trace s @
                 [Print ''Error: ANTHROPIC_API_KEY environment variable not set'']\<rparr>)"
  using assms
  by (simp add: analyze_version_bump_def then_do_def print_def sys_exit_def emit_def Let_def)

lemma example_world_fields:
  "environ example_world ''BASE_SHA'' = Some ''a1b2c3''"
  "environ example_world ''HEAD_SHA'' = Some ''d4e5f6''"
  "environ example_world ''ANTHROPIC_API_KEY'' = Some ''key''"
  "environ example_world ''WILDESTAI_AZURE_PUBLISH_PAT'' = Some ''pat''"
  "environ example_world ''OPENVSX_TOKEN'' = Some ''tok''"
  "environ example_world ''GITHUB_OUTPUT'' = Some ''out.txt''"
  "environ example_world ''PR_TITLE'' = None"
  "environ example_world ''PR_BODY'' = None"
  "package_version example_world = Some ''1.2.3''"
  "shell example_world = (\<lambda>cmd. \<lparr>returncode = 0, stdout = '''', stderr = ''''\<rparr>)"
  "llm example_world = (\<lambda>p. ApiMessage [TextBlock ''{...}''])"
  "model_validate_json example_world =
     (\<lambda>text. Inr \<lparr>version_bump = ''patch'', new_version = ''1.2.4'',
                       changelog_entry = ''## [1.2.4]''\<rparr>)"
  "decodable example_world = (\<lambda>bytes. True)"
  by (simp_all add: example_world_def)

lemma example_state_fields:
  "trace example_state = []"
  "files example_state =
     [''CHANGELOG.md'' \<mapsto> ''# Changelog\<newline>\<newline>## [Unreleased]\<newline>\<newline>## [1.0.0]\<newline>'']"
  by (simp_all add: example_state_def)


lemma runs_agree:
  assumes sh: "shell w0 = shell w1"
    and pv: "package_version w0 = package_version w1"
    and lm: "llm w0 = llm w1"
    and mv: "model_validate_json w0 = model_validate_json w1"
    and td: "today w0 = today w1"
    and dc: "decodable w0 = decodable w1"
    and title: "getenv_default w0 ''PR_TITLE'' '''' = getenv_default w1 ''PR_TITLE'' ''''"
    and body: "getenv_default w0 ''PR_BODY'' ''No description provided''
                 = getenv_default w1 ''PR_BODY'' ''No description provided''"
    and env: "\<And>k. k \<noteq> ''PR_TITLE'' \<Longrightarrow> k \<noteq> ''PR_BODY'' \<Longrightarrow> environ w0 k = environ w1 k"
  shows "main w0 = main w1"
proof -
  have ge: "getenv w0 ''BASE_SHA'' = getenv w1 ''BASE_SHA''"
    "getenv w0 ''HEAD_SHA'' = getenv w1 ''HEAD_SHA''"
    "getenv w0 ''ANTHROPIC_API_KEY'' = getenv w1 ''ANTHROPIC_API_KEY''"
    "getenv w0 ''WILDESTAI_AZURE_PUBLISH_PAT'' = getenv w1 ''WILDESTAI_AZURE_PUBLISH_PAT''"
    "getenv w0 ''OPENVSX_TOKEN'' = getenv w1 ''OPENVSX_TOKEN''"
    "getenv w0 ''GITHUB_OUTPUT'' = getenv w1 ''GITHUB_OUTPUT''"
    unfolding getenv_def by (rule env; simp)+
  have sub: "subprocess_run w0 cmd check = subprocess_run w1 cmd check" for cmd check
    unfolding subprocess_run_def sh by (rule refl)
  have run: "run_command w0 cmd check = run_command w1 cmd check" for cmd check
    unfolding run_command_def sub by (rule refl)
  have cur: "get_current_version w0 = get_current_version w1"
    unfolding get_current_version_def pv by (rule refl)
  have pr: "get_pr_details w0 b h = get_pr_details w1 b h" for b h
    unfolding get_pr_details_def run title body by (rule refl)
  have pt: "prompt w0 cv d = prompt w1 cv d" for cv d
    unfolding prompt_def td by (rule refl)
  have an: "analyze_version_bump w0 cv d = analyze_version_bump w1 cv d" for cv d
    unfolding analyze_version_bump_def ge pt lm mv by (rule refl)
  have up: "update_package_json w0 v = update_package_json w1 v" for v
    unfolding update_package_json_def run by (rule refl)
  have rd: "read_file w0 path = read_file w1 path" for path
    unfolding read_file_def dc by (rule refl)
  have uc: "update_changelog w0 e = update_changelog w1 e" for e
    unfolding update_changelog_def rd by (rule refl)
  have cp: "commit_and_push w0 v = commit_and_push w1 v" for v
    unfolding commit_and_push_def run by (rule refl)
  have pe: "publish_extension w0 = publish_extension w1"
    unfolding publish_extension_def ge run by (rule refl)
  have ct: "create_git_tag w0 v = create_git_tag w1 v" for v
    unfolding create_git_tag_def run by (rule refl)
  have go: "github_outputs w0 v e = github_outputs w1 v e" for v e
    unfolding github_outputs_def ge by (rule refl)
  have rel: "release w0 b h = release w1 b h" for b h
    unfolding release_def cur pr an up uc cp pe ct go by (rule refl)
  show ?thesis
    unfolding main_def ge rel by (rule refl)
qed


lemma semver_less_spec_bump: "semver_less t (spec_bump k t)"
  by (cases k; cases t) auto


lemma emits_onlyD:
  assumes "emits_only P m" and "m s = (r, s')"
  shows "\<exists>evs. trace s' = trace s @ evs \<and> list_all P evs"
    and "r = Inl (SystemExit n) \<Longrightarrow> n = 1"
proof -
  note c = assms(1) [unfolded emits_only_def, rule_format, OF assms(2)]
  from c show "\<exists>evs. trace s' = trace s @ evs \<and> list_all P evs" by (rule conjunct1)
  from c have "\<forall>n. r = Inl (SystemExit n) \<longrightarrow> n = 1" by (rule conjunct2)
  then show "r = Inl (SystemExit n) \<Longrightarrow> n = 1" by (elim allE impE)
qed

lemma emits_onlyI:
  assumes "\<And>s r s'. m s = (r, s') \<Longrightarrow> \<exists>evs. trace s' = trace s @ evs \<and> list_all P evs"
    and "\<And>s n s'. m s = (Inl (SystemExit n), s') \<Longrightarrow> n = 1"
  shows "emits_only P m"
  unfolding emits_only_def
proof (intro allI impI conjI)
  fix s r s' assume "m s = (r, s')"
  then show "\<exists>evs. trace s' = trace s @ evs \<and> list_all P evs" by (rule assms(1))
next
  fix s r s' n assume "m s = (r, s')" and "r = Inl (SystemExit n)"
  then have "m s = (Inl (SystemExit n), s')" by simp
  then show "n = 1" by (rule assms(2))
qed

lemma then_do_cases:
  assumes "then_do m f s = (r, s')"
  obtains (stop) e where "m s = (Inl e, s')" and "r = Inl e"
  | (go) x s1 where "m s = (Inr x, s1)" and "f x s1 = (r, s')"
proof -
  obtain r1 s1 where m1: "m s = (r1, s1)" by (cases "m s")
  show thesis
  proof (cases r1)
    case (Inl e)
    with assms m1 have "m s = (Inl e, s')" "r = Inl e" by (simp_all add: then_do_def)
    then show thesis by (rule stop)
  next
    case (Inr x)
    with assms m1 have "m s = (Inr x, s1)" "f x s1 = (r, s')" by (simp_all add: then_do_def)
    then show thesis by (rule go)
  qed
qed

lemma emits_only_then_do:
  assumes m: "emits_only P m" and f: "\<And>x. emits_only P (f x)"
  shows "emits_only P (then_do m f)"
proof (rule emits_onlyI)
  fix s r s' assume run: "then_do m f s = (r, s')"
  from run show "\<exists>evs. trace s' = trace s @ evs \<and> list_all P evs"
  proof (cases rule: then_do_cases)
    case (stop e)
    from emits_onlyD(1) [OF m stop(1)] show ?thesis .
  next
    case (go x s1)
    from emits_onlyD(1) [OF m go(1)] obtain evs1 where
      t1: "trace s1 = trace s @ evs1" and p1: "list_all P evs1" by (elim exE conjE)
    from emits_onlyD(1) [OF f go(2)] obtain evs2 where
      t2: "trace s' = trace s1 @ evs2" and p2: "list_all P evs2" by (elim exE conjE)
    have "trace s' = trace s @ (evs1 @ evs2)" unfolding t2 t1 by simp
    moreover have "list_all P (evs1 @ evs2)" using p1 p2 by simp
    ultimately show ?thesis by (intro exI conjI)
  qed
next
  fix s n s' assume run: "then_do m f s = (Inl (SystemExit n), s')"
  from run show "n = 1"
  proof (cases rule: then_do_cases)
    case (stop e)
    from stop(2) have "e = SystemExit n" by simp
    with stop(1) have "m s = (Inl (SystemExit n), s')" by simp
    from emits_onlyD(2) [OF m this refl] show ?thesis .
  next
    case (go x s1)
    from emits_onlyD(2) [OF f go(2) refl] show ?thesis .
  qed
qed

lemma never_returnsD:
  assumes "never_returns m" and "m s = (r, s')"
  shows "\<exists>e. r = Inl e"
  using assms(1) [unfolded never_returns_def, rule_format, OF assms(2)] .

lemma emits_only_then_do_never:
  assumes m: "emits_only P m" and n: "never_returns m"
  shows "emits_only P (then_do m f)"
proof (rule emits_onlyI)
  fix s r s' assume run: "then_do m f s = (r, s')"
  from run show "\<exists>evs. trace s' = trace s @ evs \<and> list_all P evs"
  proof (cases rule: then_do_cases)
    case (stop e)
    from emits_onlyD(1) [OF m stop(1)] show ?thesis .
  next
    case (go x s1)
    from never_returnsD [OF n go(1)] show ?thesis by simp
  qed
next
  fix s n' s' assume run: "then_do m f s = (Inl (SystemExit n'), s')"
  from run show "n' = 1"
  proof (cases rule: then_do_cases)
    case (stop e)
    from stop(2) have "e = SystemExit n'" by simp
    with stop(1) have "m s = (Inl (SystemExit n'), s')" by simp
    from emits_onlyD(2) [OF m this refl] show ?thesis .
  next
    case (go x s1)
    from never_returnsD [OF n go(1)] show ?thesis by simp
  qed
qed

lemma keeps_filesD:
  assumes "keeps_files m" and "m s = (r, s')"
  shows "files s' = files s"
  using assms(1) [unfolded keeps_files_def, rule_format, OF assms(2)] .

lemma keeps_files_then_do:
  assumes m: "keeps_files m" and f: "\<And>x. keeps_files (f x)"
  shows "keeps_files (then_do m f)"
  unfolding keeps_files_def
proof (intro allI impI)
  fix s r s' assume run: "then_do m f s = (r, s')"
  from run show "files s' = files s"
  proof (cases rule: then_do_cases)
    case (stop e)
    from keeps_filesD [OF m stop(1)] show ?thesis .
  next
    case (go x s1)
    from keeps_filesD [OF m go(1)] keeps_filesD [OF f go(2)] show ?thesis by simp
  qed
qed

lemma keeps_files_then_do_never:
  assumes m: "keeps_files m" and n: "never_returns m"
  shows "keeps_files (then_do m f)"
  unfolding keeps_files_def
proof (intro allI impI)
  fix s r s' assume run: "then_do m f s = (r, s')"
  from run show "files s' = files s"
  proof (cases rule: then_do_cases)
    case (stop e)
    from keeps_filesD [OF m stop(1)] show ?thesis .
  next
    case (go x s1)
    from never_returnsD [OF n go(1)] show ?thesis by simp
  qed
qed

lemma never_returns_then_do_left:
  assumes "never_returns m"
  shows "never_returns (then_do m f)"
  unfolding never_returns_def
proof (intro allI impI)
  fix s r s' assume run: "then_do m f s = (r, s')"
  from run show "\<exists>e. r = Inl e"
  proof (cases rule: then_do_cases)
    case (stop e)
    then show ?thesis by (intro exI)
  next
    case (go x s1)
    from never_returnsD [OF assms go(1)] show ?thesis by simp
  qed
qed

lemma never_returns_then_do_right:
  assumes "\<And>x. never_returns (f x)"
  shows "never_returns (then_do m f)"
  unfolding never_returns_def
proof (intro allI impI)
  fix s r s' assume run: "then_do m f s = (r, s')"
  from run show "\<exists>e. r = Inl e"
  proof (cases rule: then_do_cases)
    case (stop e)
    then show ?thesis by (intro exI)
  next
    case (go x s1)
    from never_returnsD [OF assms go(2)] show ?thesis .
  qed
qed

lemma emits_only_print: "P (Print l) \<Longrightarrow> emits_only P (print l)"
  by (simp add: emits_only_def print_def emit_def)

lemma emits_only_sys_exit: "emits_only P (sys_exit 1)"
  by (simp add: emits_only_def sys_exit_def)

lemma emits_only_ret: "emits_only P (ret x)"
  by (simp add: emits_only_def ret_def)

lemma emits_only_raise: "emits_only P (raise e)"
  by (simp add: emits_only_def raise_def)

lemma emits_only_run_command:
  assumes "P (Print (''Running: '' @ cmd))" and "P (Run cmd)"
  shows "emits_only P (run_command w cmd True)"
proof (cases "returncode (shell w cmd) = 0")
  case True
  show ?thesis unfolding emits_only_def run_command_zero [OF True] using assms by simp
next
  case False
  show ?thesis unfolding emits_only_def run_command_nonzero [OF False] using assms by simp
qed

lemma keeps_files_print: "keeps_files (print l)"
  by (simp add: keeps_files_def print_def emit_def)

lemma keeps_files_sys_exit: "keeps_files (sys_exit n)"
  by (simp add: keeps_files_def sys_exit_def)

lemma keeps_files_ret: "keeps_files (ret x)"
  by (simp add: keeps_files_def ret_def)

lemma keeps_files_raise: "keeps_files (raise e)"
  by (simp add: keeps_files_def raise_def)

lemma keeps_files_run_command: "keeps_files (run_command w cmd True)"
proof (cases "returncode (shell w cmd) = 0")
  case True
  show ?thesis unfolding keeps_files_def run_command_zero [OF True] by simp
next
  case False
  show ?thesis unfolding keeps_files_def run_command_nonzero [OF False] by simp
qed

lemma never_returns_sys_exit: "never_returns (sys_exit n)"
  by (simp add: never_returns_def sys_exit_def)

lemma emits_only_emit: "P e \<Longrightarrow> emits_only P (\<lambda>s. (Inr v, emit e s))"
  by (simp add: emits_only_def emit_def)

lemma emits_only_get_current_version: "emits_only P (get_current_version w)"
  unfolding get_current_version_def
  by (cases "package_version w") (simp_all add: emits_only_raise emits_only_ret)

lemma keeps_files_get_current_version: "keeps_files (get_current_version w)"
  unfolding get_current_version_def
  by (cases "package_version w") (simp_all add: keeps_files_raise keeps_files_ret)

lemma emits_only_get_pr_details:
  assumes "\<And>l. P (Print l)" and "P (Run (git_log_command b h))"
  shows "emits_only P (get_pr_details w b h)"
  unfolding get_pr_details_unfold
  by (intro emits_only_then_do emits_only_run_command emits_only_ret assms)

lemma keeps_files_get_pr_details: "keeps_files (get_pr_details w b h)"
  unfolding get_pr_details_unfold
  by (intro keeps_files_then_do keeps_files_run_command keeps_files_ret)

lemma emits_only_api_failed:
  assumes "\<And>l. P (Print l)" and "\<And>x. P (Traceback x)"
  shows "emits_only P (api_failed msg)"
  unfolding api_failed_def
  by (intro emits_only_then_do emits_only_print emits_only_emit emits_only_sys_exit assms)

lemma emits_only_analyze_version_bump:
  assumes p: "\<And>l. P (Print l)" and t: "\<And>x. P (Traceback x)" and a: "\<And>q. P (ApiCall q)"
  shows "emits_only P (analyze_version_bump w cv pr)"
proof -
  note f = emits_only_api_failed [of P, OF p t]
  have inner: "emits_only P
      (case outcome of
         ApiRaises msg \<Rightarrow> api_failed msg
       | ApiMessage blocks \<Rightarrow>
           (case blocks of
              [] \<Rightarrow> api_failed ''list index out of range''
            | OtherBlock cls # _ \<Rightarrow>
                api_failed (apostrophe @ cls @ apostrophe @ '' object has no attribute 'text'' @ apostrophe)
            | TextBlock content # _ \<Rightarrow>
                then_do (print (''Claude response: '' @ content)) (\<lambda>_.
                case model_validate_json w content of
                  Inl msg \<Rightarrow> api_failed msg
                | Inr result \<Rightarrow>
                    ret (version_bump result, new_version result,
                         changelog_entry result))))" for outcome
  proof (cases outcome)
    case (ApiRaises msg)
    then show ?thesis by (simp add: f)
  next
    case (ApiMessage blocks)
    show ?thesis
    proof (cases blocks)
      case Nil
      with ApiMessage show ?thesis by (simp add: f)
    next
      case (Cons blk rest)
      show ?thesis
      proof (cases blk)
        case (OtherBlock cls)
        with ApiMessage Cons show ?thesis by (simp add: f)
      next
        case (TextBlock content)
        have "emits_only P (case model_validate_json w content of
                  Inl msg \<Rightarrow> api_failed msg
                | Inr result \<Rightarrow>
                    ret (version_bump result, new_version result,
                         changelog_entry result))"
          by (cases "model_validate_json w content") (simp_all add: f emits_only_ret)
        with ApiMessage Cons TextBlock show ?thesis
          by (simp add: emits_only_then_do emits_only_print p)
      qed
    qed
  qed
  show ?thesis
    unfolding analyze_version_bump_def Let_def
    by (simp add: emits_only_then_do emits_only_print emits_only_sys_exit emits_only_emit
          p a inner)
qed

lemma emits_only_update_changelog:
  assumes p: "\<And>l. P (Print l)" and f: "\<And>path text. P (FileWrite path text)"
  shows "emits_only P (update_changelog w entry)"
proof -
  have r: "emits_only P (read_file w path)" for path
    by (simp add: emits_only_def read_file_def split: option.splits)
  have w: "emits_only P (write_file path cont)" for path cont
    by (simp add: emits_only_def write_file_def emit_def f)
  have c: "emits_only P (case found of
       None \<Rightarrow>
         then_do (print ''Error: Could not find [Unreleased] section in CHANGELOG.md'')
           (\<lambda>_. sys_exit 1)
     | Some (match_start, insert_pos) \<Rightarrow>
         write_file ''CHANGELOG.md'' (new_content content insert_pos entry))" for found content
    by (cases found)
       (auto simp: emits_only_then_do emits_only_print emits_only_sys_exit p w)
  show ?thesis
    unfolding update_changelog_def
    by (intro emits_only_then_do emits_only_print p r c)
qed

lemma emits_only_update_package_json:
  assumes "\<And>l. P (Print l)" and "\<And>v. P (Run (''npm version '' @ v @ '' --no-git-tag-version''))"
  shows "emits_only P (update_package_json w v)"
  unfolding update_package_json_def
  by (intro emits_only_then_do emits_only_print emits_only_run_command emits_only_ret assms)

lemma emits_only_commit_and_push:
  assumes "\<And>l. P (Print l)" and "\<And>c. prefix ''git '' c \<Longrightarrow> P (Run c)"
  shows "emits_only P (commit_and_push w v)"
  unfolding commit_and_push_def
  by (intro emits_only_then_do emits_only_print emits_only_run_command emits_only_ret assms)
     simp_all

lemma script_cases:
  assumes "script w s = (status, s')"
  obtains (returned) x where "main w s = (Inr x, s')" and "status = 0"
  | (exited) n where "main w s = (Inl (SystemExit n), s')" and "status = n"
  | (raised) e s1 where "main w s = (Inl (Uncaught e), s1)" and "status = 1"
      and "s' = emit (Traceback e) s1"
proof -
  obtain r s1 where m: "main w s = (r, s1)" by (cases "main w s")
  show thesis
  proof (cases r)
    case (Inr x)
    with assms m have "main w s = (Inr x, s')" "status = 0" by (simp_all add: script_def)
    then show thesis by (rule returned)
  next
    case (Inl a)
    show thesis
    proof (cases a)
      case (SystemExit n)
      with assms m Inl have "main w s = (Inl (SystemExit n), s')" "status = n"
        by (simp_all add: script_def)
      then show thesis by (rule exited)
    next
      case (Uncaught e)
      with assms m Inl have "main w s = (Inl (Uncaught e), s1)" "status = 1"
        "s' = emit (Traceback e) s1" by (simp_all add: script_def)
      then show thesis by (rule raised)
    qed
  qed
qed

lemma script_of_failing_main:
  assumes run: "script w s = (status, s')"
    and never: "never_returns (main w)"
    and only: "emits_only P (main w)"
    and tb: "\<And>e. P (Traceback e)"
  shows "status \<noteq> 0 \<and> (\<exists>evs. trace s' = trace s @ evs \<and> list_all P evs)"
  using run
proof (cases rule: script_cases)
  case (returned x)
  from never_returnsD [OF never returned(1)] show ?thesis by simp
next
  case (exited n)
  from emits_onlyD(2) [OF only exited(1) refl] exited(2) have "status \<noteq> 0" by simp
  with emits_onlyD(1) [OF only exited(1)] show ?thesis by (intro conjI)
next
  case (raised e s1)
  from emits_onlyD(1) [OF only raised(1)] obtain evs where
    t: "trace s1 = trace s @ evs" and p: "list_all P evs" by (elim exE conjE)
  have "trace s' = trace s @ (evs @ [Traceback e])" unfolding raised(3) emit_def t by simp
  moreover have "list_all P (evs @ [Traceback e])" using p tb by simp
  ultimately have "\<exists>evs. trace s' = trace s @ evs \<and> list_all P evs" by (intro exI conjI)
  with raised(2) show ?thesis by simp
qed

lemma script_keeps_files:
  assumes run: "script w s = (status, s')" and keeps: "keeps_files (main w)"
  shows "files s' = files s"
  using run
proof (cases rule: script_cases)
  case (returned x)
  from keeps_filesD [OF keeps returned(1)] show ?thesis .
next
  case (exited n)
  from keeps_filesD [OF keeps exited(1)] show ?thesis .
next
  case (raised e s1)
  from keeps_filesD [OF keeps raised(1)] show ?thesis unfolding raised(3) emit_def by simp
qed

lemma main_without_refs:
  assumes "falsy (getenv w ''BASE_SHA'') \<or> falsy (getenv w ''HEAD_SHA'')"
  shows "main w =
           then_do (print ''=== Starting automated release process ==='') (\<lambda>_.
           then_do (print ''Error: BASE_SHA or HEAD_SHA not set'') (\<lambda>_. sys_exit 1))"
  using assms unfolding main_def Let_def by simp

lemma main_with_refs:
  assumes "\<not> (falsy (getenv w ''BASE_SHA'') \<or> falsy (getenv w ''HEAD_SHA''))"
  shows "main w =
           then_do (print ''=== Starting automated release process ==='') (\<lambda>_.
           release w (fmt (getenv w ''BASE_SHA'')) (fmt (getenv w ''HEAD_SHA'')))"
  using assms unfolding main_def Let_def by simp

lemma read_only_simps:
  "read_only_event (Print l)" "read_only_event (Traceback x)"
  "read_only_event (Run (git_log_command b h))"
  by (simp_all add: read_only_event_def git_log_command_def)

lemma main_no_work:
  assumes "falsy (getenv w ''BASE_SHA'') \<or> falsy (getenv w ''HEAD_SHA'') \<or>
           falsy (getenv w ''ANTHROPIC_API_KEY'')"
  shows "never_returns (main w) \<and> emits_only read_only_event (main w) \<and> keeps_files (main w)"
proof (cases "falsy (getenv w ''BASE_SHA'') \<or> falsy (getenv w ''HEAD_SHA'')")
  case True
  show ?thesis
    unfolding main_without_refs [OF True]
    by (intro conjI never_returns_then_do_right never_returns_sys_exit
          emits_only_then_do emits_only_print emits_only_sys_exit read_only_simps
          keeps_files_then_do keeps_files_print keeps_files_sys_exit)
next
  case False
  with assms have key: "falsy (getenv w ''ANTHROPIC_API_KEY'')" by blast
  have a1: "never_returns (analyze_version_bump w cv pr)" for cv pr
    unfolding never_returns_def analyze_version_bump_no_key [OF key] by simp
  have a2: "emits_only read_only_event (analyze_version_bump w cv pr)" for cv pr
    unfolding emits_only_def analyze_version_bump_no_key [OF key]
    by (simp add: read_only_simps)
  have a3: "keeps_files (analyze_version_bump w cv pr)" for cv pr
    unfolding keeps_files_def analyze_version_bump_no_key [OF key] by simp
  have t1: "never_returns (then_do (analyze_version_bump w cv pr) f)" for cv pr f
    using a1 by (rule never_returns_then_do_left)
  have t2: "emits_only read_only_event (then_do (analyze_version_bump w cv pr) f)" for cv pr f
    using a2 a1 by (rule emits_only_then_do_never)
  have t3: "keeps_files (then_do (analyze_version_bump w cv pr) f)" for cv pr f
    using a3 a1 by (rule keeps_files_then_do_never)
  have r1: "never_returns (release w b h)" for b h
    unfolding release_def by (intro never_returns_then_do_right t1)
  have r2: "emits_only read_only_event (release w b h)" for b h
    unfolding release_def
    by (intro t2 emits_only_then_do emits_only_get_current_version emits_only_print
          emits_only_get_pr_details read_only_simps)
  have r3: "keeps_files (release w b h)" for b h
    unfolding release_def
    by (intro t3 keeps_files_then_do keeps_files_get_current_version keeps_files_print
          keeps_files_get_pr_details)
  show ?thesis
    unfolding main_with_refs [OF False]
    by (intro conjI never_returns_then_do_right r1 emits_only_then_do emits_only_print
          read_only_simps r2 keeps_files_then_do keeps_files_print r3)
qed

lemma not_publishing_simps:
  "\<not> publishing_event (Print l)" "\<not> publishing_event (Traceback x)"
  "\<not> publishing_event (ApiCall q)" "\<not> publishing_event (FileWrite path cont)"
  "\<not> publishing_event (Run (git_log_command b h))"
  "\<not> publishing_event (Run (''npm version '' @ v @ '' --no-git-tag-version''))"
  "prefix ''git '' c \<Longrightarrow> \<not> publishing_event (Run c)"
  by (auto simp: publishing_event_def git_log_command_def prefix_def)

lemma publish_extension_no_token:
  assumes "falsy (getenv w ''WILDESTAI_AZURE_PUBLISH_PAT'') \<or> falsy (getenv w ''OPENVSX_TOKEN'')"
  shows "publish_extension w s =
           (Inl (SystemExit 1),
            s\<lparr>trace := trace s @
                 [Print ''Error: WILDESTAI_AZURE_PUBLISH_PAT or OPENVSX_TOKEN not set'']\<rparr>)"
  using assms
  by (simp add: publish_extension_def Let_def then_do_def print_def sys_exit_def emit_def)

lemma never_returns_case_prod3:
  assumes "\<And>a b c. never_returns (f a b c)"
  shows "never_returns (case x of (a, b, c) \<Rightarrow> f a b c)"
  using assms by (cases x) simp

lemma emits_only_case_prod3:
  assumes "\<And>a b c. emits_only P (f a b c)"
  shows "emits_only P (case x of (a, b, c) \<Rightarrow> f a b c)"
  using assms by (cases x) simp

lemma release_never_returns:
  assumes t1: "\<And>f :: unit \<Rightarrow> unit step. never_returns (then_do (publish_extension w) f)"
  shows "never_returns (release w b h)"
  unfolding release_def
  apply (rule never_returns_then_do_right)
  apply (rule never_returns_then_do_right)
  apply (rule never_returns_then_do_right)
  apply (rule never_returns_then_do_right)
  apply (rule never_returns_then_do_right)
  apply (rule never_returns_case_prod3)
  apply (rule never_returns_then_do_right)
  apply (rule never_returns_then_do_right)
  apply (rule never_returns_then_do_right)
  apply (rule never_returns_then_do_right)
  apply (rule never_returns_then_do_right)
  apply (rule never_returns_then_do_right)
  apply (rule t1)
  done

lemma emits_only_create_git_tag:
  assumes "\<And>l. P (Print l)" and "\<And>c. prefix ''git '' c \<Longrightarrow> P (Run c)"
  shows "emits_only P (create_git_tag w v)"
  unfolding create_git_tag_def
  by (intro emits_only_then_do emits_only_print emits_only_run_command emits_only_ret assms)
     simp_all

lemma emits_only_github_outputs:
  assumes "\<And>path cont. P (FileAppend path cont)"
  shows "emits_only P (github_outputs w v e)"
proof -
  have a: "emits_only P (append_file path cont)" for path cont
    by (simp add: emits_only_def append_file_def emit_def assms)
  show ?thesis
    unfolding github_outputs_def Let_def
    by (simp add: emits_only_then_do a emits_only_ret)
qed

lemma release_emits_only:
  assumes p: "\<And>l. P (Print l)" and t: "\<And>x. P (Traceback x)" and a: "\<And>q. P (ApiCall q)"
    and fw: "\<And>path cont. P (FileWrite path cont)"
    and fa: "\<And>path cont. P (FileAppend path cont)"
    and lg: "P (Run (git_log_command b h))"
    and nv: "\<And>v. P (Run (''npm version '' @ v @ '' --no-git-tag-version''))"
    and gt: "\<And>c. prefix ''git '' c \<Longrightarrow> P (Run c)"
    and pe: "emits_only P (publish_extension w)"
  shows "emits_only P (release w b h)"
  unfolding release_def
  by (intro emits_only_then_do emits_only_case_prod3
        emits_only_get_current_version emits_only_print p
        emits_only_get_pr_details lg
        emits_only_analyze_version_bump t a
        emits_only_update_package_json nv
        emits_only_update_changelog fw
        emits_only_commit_and_push gt pe
        emits_only_create_git_tag emits_only_github_outputs fa)

lemma main_never_publishes:
  assumes tok: "falsy (getenv w ''WILDESTAI_AZURE_PUBLISH_PAT'') \<or>
                falsy (getenv w ''OPENVSX_TOKEN'')"
  shows "never_returns (main w) \<and> emits_only (\<lambda>e. \<not> publishing_event e) (main w)"
proof (cases "falsy (getenv w ''BASE_SHA'') \<or> falsy (getenv w ''HEAD_SHA'')")
  case True
  show ?thesis
    unfolding main_without_refs [OF True]
    by (intro conjI never_returns_then_do_right never_returns_sys_exit
          emits_only_then_do emits_only_print emits_only_sys_exit not_publishing_simps)
next
  case False
  let ?P = "\<lambda>e. \<not> publishing_event e"
  have a1: "never_returns (publish_extension w)"
    unfolding never_returns_def publish_extension_no_token [OF tok] by simp
  have a2: "emits_only ?P (publish_extension w)"
    unfolding emits_only_def publish_extension_no_token [OF tok]
    by (simp add: not_publishing_simps)
  have t1: "never_returns (then_do (publish_extension w) f)" for f :: "unit \<Rightarrow> unit step"
    using a1 by (rule never_returns_then_do_left)
  have r1: "never_returns (release w b h)" for b h
    using t1 by (rule release_never_returns)
  have fa: "\<not> publishing_event (FileAppend path cont)" for path cont
    by (simp add: publishing_event_def)
  have r2: "emits_only ?P (release w b h)" for b h
    by (rule release_emits_only) (rule not_publishing_simps fa a2 | assumption)+
  show ?thesis
    unfolding main_with_refs [OF False]
    by (intro conjI never_returns_then_do_right r1 emits_only_then_do emits_only_print
          not_publishing_simps r2)
qed

lemmas run_defs =
  script_def main_def release_def then_do_def print_def ret_def sys_exit_def raise_def emit_def
  getenv_def getenv_default_def falsy_def fmt_def
  get_current_version_def get_pr_details_def run_command_def subprocess_run_def
  analyze_version_bump_def api_failed_def update_package_json_def
  update_changelog_def read_file_def write_file_def append_file_def new_content_def
  commit_and_push_def publish_extension_def create_git_tag_def github_outputs_def
  re_search_def unreleased_re_def unreleased_marker_def newline_def carriage_return_def
  strip_def Let_def













section \<open>Failures of the run\<close>

text \<open>
  Claim C5. A command that exits with a status other than zero ends the run with status 1
  and nothing runs after it, but its captured standard error is not printed:
  \<open>subprocess.run\<close> is called with \<open>check=True\<close> and raises before \<open>run_command\<close>
  reaches its own test of the status, so the branch that prints the error text is never
  taken. Here \<open>git log\<close> exits with 128 and \<open>fatal: bad revision\<close> on its standard error:
  the trace of the whole run holds the traceback of the exception and no line with that
  text.
\<close>

theorem failed_command_stderr_not_printed:
  "script (example_world\<lparr>shell := \<lambda>cmd.
       \<lparr>returncode = 128, stdout = '''', stderr = ''fatal: bad revision''\<rparr>\<rparr>) example_state =
     (1, example_state\<lparr>trace :=
        [Print ''=== Starting automated release process ==='',
         Print ''Current version: 1.2.3'',
         Print (''Running: '' @ git_log_command ''a1b2c3'' ''d4e5f6''),
         Run (git_log_command ''a1b2c3'' ''d4e5f6''),
         Traceback (CalledProcessError (git_log_command ''a1b2c3'' ''d4e5f6'') 128)]\<rparr>)"
proof -
  let ?w = "example_world\<lparr>shell := \<lambda>cmd.
       \<lparr>returncode = 128, stdout = '''', stderr = ''fatal: bad revision''\<rparr>\<rparr>"
  have n: "returncode (shell ?w (git_log_command ''a1b2c3'' ''d4e5f6'')) \<noteq> 0" by simp
  have g: "get_pr_details ?w ''a1b2c3'' ''d4e5f6'' s1 =
      (Inl (Uncaught (CalledProcessError (git_log_command ''a1b2c3'' ''d4e5f6'') 128)),
       s1\<lparr>trace := trace s1 @ [Print (''Running: '' @ git_log_command ''a1b2c3'' ''d4e5f6''),
                                Run (git_log_command ''a1b2c3'' ''d4e5f6'')]\<rparr>)" for s1
    unfolding get_pr_details_unfold
    using run_command_nonzero [OF n, of s1] by (simp add: then_do_def)
  have r: "release ?w ''a1b2c3'' ''d4e5f6'' s1 =
      (Inl (Uncaught (CalledProcessError (git_log_command ''a1b2c3'' ''d4e5f6'') 128)),
       s1\<lparr>trace := trace s1 @ [Print ''Current version: 1.2.3'',
            Print (''Running: '' @ git_log_command ''a1b2c3'' ''d4e5f6''),
            Run (git_log_command ''a1b2c3'' ''d4e5f6'')]\<rparr>)" for s1
    unfolding release_def
    by (simp add: then_do_def get_current_version_def example_world_fields ret_def print_def
          g emit_def)
  show ?thesis
    unfolding script_def main_def
    by (simp add: then_do_def print_def getenv_def falsy_def fmt_def r emit_def
          example_world_fields example_state_fields)
qed

text \<open>
  Claim C8. When the run reaches the call of the LLM API and the \<open>try\<close> block raises (the
  call itself, or the validation of the answer), the process ends with status 1. The
  trace is given in full: one call and no second one, the raw answer when there is one,
  the error line and the traceback, and nothing after them; the files are untouched.
\<close>

theorem api_failure_stops_run:
  assumes base: "environ w ''BASE_SHA'' = Some b" "b \<noteq> []"
    and head: "environ w ''HEAD_SHA'' = Some h" "h \<noteq> []"
    and version: "package_version w = Some cv"
    and log: "returncode (shell w (git_log_command b h)) = 0"
    and pr: "pr = \<lparr>title = getenv_default w ''PR_TITLE'' '''',
                    body = getenv_default w ''PR_BODY'' ''No description provided'',
                    commits = strip (stdout (shell w (git_log_command b h)))\<rparr>"
    and key: "\<not> falsy (getenv w ''ANTHROPIC_API_KEY'')"
    and err: "api_error w (prompt w cv pr) = Some msg"
  shows "script w s =
           (1, s\<lparr>trace := trace s @
                 [Print ''=== Starting automated release process ==='',
                  Print (''Current version: '' @ cv),
                  Print (''Running: '' @ git_log_command b h),
                  Run (git_log_command b h),
                  Print (''PR Title: '' @ title pr),
                  ApiCall (prompt w cv pr)] @
                 raw_response w (prompt w cv pr) @
                 [Print (''Error calling Claude API: '' @ msg),
                  Traceback (ApiException msg)]\<rparr>)"
proof -
  have a: "analyze_version_bump w cv pr s1 =
           (Inl (SystemExit 1),
            s1\<lparr>trace := trace s1 @ [ApiCall (prompt w cv pr)] @ raw_response w (prompt w cv pr) @
                 [Print (''Error calling Claude API: '' @ msg), Traceback (ApiException msg)]\<rparr>)"
    for s1 using key err by (rule analyze_version_bump_error)
  have g: "get_pr_details w b h s1 =
             (Inr pr, s1\<lparr>trace := trace s1 @ [Print (''Running: '' @ git_log_command b h),
                                               Run (git_log_command b h)]\<rparr>)" for s1
    unfolding get_pr_details_unfold pr
    by (simp add: then_do_def run_command_zero [OF log] ret_def)
  have r: "release w b h s1 =
             (Inl (SystemExit 1),
              s1\<lparr>trace := trace s1 @
                 [Print (''Current version: '' @ cv),
                  Print (''Running: '' @ git_log_command b h),
                  Run (git_log_command b h),
                  Print (''PR Title: '' @ title pr),
                  ApiCall (prompt w cv pr)] @
                 raw_response w (prompt w cv pr) @
                 [Print (''Error calling Claude API: '' @ msg),
                  Traceback (ApiException msg)]\<rparr>)" for s1
    unfolding release_def
    by (simp add: then_do_def get_current_version_def version ret_def print_def g a emit_def)
  show ?thesis
    unfolding script_def main_def
    by (simp add: then_do_def print_def getenv_def base head falsy_def fmt_def r emit_def)
qed

text \<open>The theorem at the example world with an API call that raises.\<close>

theorem api_failure_stops_run_witness:
  "script (example_world\<lparr>llm := \<lambda>p. ApiRaises ''overloaded''\<rparr>) example_state =
     (1, example_state\<lparr>trace :=
        [Print ''=== Starting automated release process ==='',
         Print ''Current version: 1.2.3'',
         Print (''Running: '' @ git_log_command ''a1b2c3'' ''d4e5f6''),
         Run (git_log_command ''a1b2c3'' ''d4e5f6''),
         Print ''PR Title: '',
         ApiCall (prompt example_world ''1.2.3''
           \<lparr>title = '''', body = ''No description provided'', commits = ''''\<rparr>),
         Print ''Error calling Claude API: overloaded'',
         Traceback (ApiException ''overloaded'')]\<rparr>)"
proof -
  let ?w = "example_world\<lparr>llm := \<lambda>p. ApiRaises ''overloaded''\<rparr>"
  let ?pr = "\<lparr>title = '''', body = ''No description provided'', commits = ''''\<rparr>"
  have h1: "environ ?w ''BASE_SHA'' = Some ''a1b2c3''" "''a1b2c3'' \<noteq> []"
    and h2: "environ ?w ''HEAD_SHA'' = Some ''d4e5f6''" "''d4e5f6'' \<noteq> []"
    and h3: "package_version ?w = Some ''1.2.3''"
    and h4: "returncode (shell ?w (git_log_command ''a1b2c3'' ''d4e5f6'')) = 0"
    and h5: "?pr = \<lparr>title = getenv_default ?w ''PR_TITLE'' '''',
                    body = getenv_default ?w ''PR_BODY'' ''No description provided'',
                    commits = strip (stdout (shell ?w (git_log_command ''a1b2c3'' ''d4e5f6'')))\<rparr>"
    and h6: "\<not> falsy (getenv ?w ''ANTHROPIC_API_KEY'')"
    and h7: "api_error ?w (prompt ?w ''1.2.3'' ?pr) = Some ''overloaded''"
    by (simp_all add: example_world_fields getenv_default_def getenv_def falsy_def strip_def
          api_error_def)
  have p: "prompt ?w = prompt example_world" by (simp add: prompt_def fun_eq_iff)
  from api_failure_stops_run [OF h1 h2 h3 h4 h5 h6 h7, of example_state]
  show ?thesis by (simp add: raw_response_def example_state_fields p)
qed


section \<open>Optional inputs\<close>

text \<open>
  Claim C10. A run does not fail for want of \<open>PR_TITLE\<close> or \<open>PR_BODY\<close>. Let the two
  commit references be set, the manifest give the version \<open>cv\<close> and \<open>git log\<close> succeed,
  and let \<open>pr\<close> hold the title, or the empty string when \<open>PR_TITLE\<close> is absent, the body,
  or \<open>No description provided\<close> when \<open>PR_BODY\<close> is absent, and the log. Then
  \<open>get_pr_details\<close> returns \<open>pr\<close>, and the run, having printed the version and the title,
  is the analysis of \<open>pr\<close> followed by the remaining steps of the release, whose request
  to the model carries the title and the body of \<open>pr\<close>: whatever ends the run is the
  analysis or a later step.
\<close>

theorem pr_details_defaults:
  assumes base: "environ w ''BASE_SHA'' = Some b" and b: "b \<noteq> []"
    and head: "environ w ''HEAD_SHA'' = Some h" and h: "h \<noteq> []"
    and ver: "package_version w = Some cv"
    and log: "returncode (shell w (git_log_command b h)) = 0"
    and pr: "pr = \<lparr>title = (case environ w ''PR_TITLE'' of None \<Rightarrow> '''' | Some t \<Rightarrow> t),
                   body = (case environ w ''PR_BODY'' of
                             None \<Rightarrow> ''No description provided'' | Some d \<Rightarrow> d),
                   commits = strip (stdout (shell w (git_log_command b h)))\<rparr>"
  shows "get_pr_details w b h s =
           (Inr pr, s\<lparr>trace := trace s @ [Print (''Running: '' @ git_log_command b h),
                                          Run (git_log_command b h)]\<rparr>) \<and>
         main w s =
           then_do (analyze_version_bump w cv pr) (\<lambda>(bump, new_v, entry).
             then_do (print (''Version bump: '' @ bump)) (\<lambda>_.
             then_do (print (''New version: '' @ new_v)) (\<lambda>_.
             then_do (print (''Changelog:\<newline>'' @ entry)) (\<lambda>_.
             then_do (update_package_json w new_v) (\<lambda>_.
             then_do (update_changelog w entry) (\<lambda>_.
             then_do (commit_and_push w new_v) (\<lambda>_.
             then_do (publish_extension w) (\<lambda>_.
             then_do (create_git_tag w new_v) (\<lambda>_.
             then_do (print ''=== Release process completed successfully ==='') (\<lambda>_.
             then_do (print (''Version '' @ new_v @ '' has been published!'')) (\<lambda>_.
             github_outputs w new_v entry)))))))))))
           (s\<lparr>trace := trace s @
                [Print ''=== Starting automated release process ==='',
                 Print (''Current version: '' @ cv),
                 Print (''Running: '' @ git_log_command b h),
                 Run (git_log_command b h),
                 Print (''PR Title: '' @ title pr)]\<rparr>) \<and>
         (\<exists>rest. prompt w cv pr =
            ''You are analyzing a merged pull request to determine the appropriate semantic version bump and generate a changelog entry.\<newline>''
            @ ''\<newline>''
            @ ''Current version: '' @ cv @ ''\<newline>''
            @ ''\<newline>''
            @ ''PR Title: '' @ title pr @ ''\<newline>''
            @ ''\<newline>''
            @ ''PR Description:\<newline>''
            @ body pr @ ''\<newline>''
            @ ''\<newline>''
            @ ''Commit messages:\<newline>''
            @ commits pr @ rest)"
proof (intro conjI)
  have details: "get_pr_details w b h t =
           (Inr pr, t\<lparr>trace := trace t @ [Print (''Running: '' @ git_log_command b h),
                                          Run (git_log_command b h)]\<rparr>)" for t
    unfolding get_pr_details_unfold pr
    by (simp add: then_do_def run_command_zero [OF log] ret_def getenv_default_def)
  show "get_pr_details w b h s =
           (Inr pr, s\<lparr>trace := trace s @ [Print (''Running: '' @ git_log_command b h),
                                          Run (git_log_command b h)]\<rparr>)"
    by (rule details)
  have step_print: "then_do (print l) f t = f () (t\<lparr>trace := trace t @ [Print l]\<rparr>)"
    for l and f :: "unit \<Rightarrow> unit step" and t
    by (simp add: then_do_def print_def emit_def)
  have step_version: "then_do (get_current_version w) f t = f cv t"
    for f :: "string \<Rightarrow> unit step" and t
    by (simp add: then_do_def get_current_version_def ver ret_def)
  have step_details: "then_do (get_pr_details w b h) f t =
      f pr (t\<lparr>trace := trace t @ [Print (''Running: '' @ git_log_command b h),
                                   Run (git_log_command b h)]\<rparr>)"
    for f :: "pr_details \<Rightarrow> unit step" and t
    by (simp add: then_do_def details)
  have refs: "\<not> (falsy (getenv w ''BASE_SHA'') \<or> falsy (getenv w ''HEAD_SHA''))"
    "fmt (getenv w ''BASE_SHA'') = b" "fmt (getenv w ''HEAD_SHA'') = h"
    by (simp_all add: falsy_def fmt_def getenv_def base head b h)
  show "main w s =
           then_do (analyze_version_bump w cv pr) (\<lambda>(bump, new_v, entry).
             then_do (print (''Version bump: '' @ bump)) (\<lambda>_.
             then_do (print (''New version: '' @ new_v)) (\<lambda>_.
             then_do (print (''Changelog:\<newline>'' @ entry)) (\<lambda>_.
             then_do (update_package_json w new_v) (\<lambda>_.
             then_do (update_changelog w entry) (\<lambda>_.
             then_do (commit_and_push w new_v) (\<lambda>_.
             then_do (publish_extension w) (\<lambda>_.
             then_do (create_git_tag w new_v) (\<lambda>_.
             then_do (print ''=== Release process completed successfully ==='') (\<lambda>_.
             then_do (print (''Version '' @ new_v @ '' has been published!'')) (\<lambda>_.
             github_outputs w new_v entry)))))))))))
           (s\<lparr>trace := trace s @
                [Print ''=== Starting automated release process ==='',
                 Print (''Current version: '' @ cv),
                 Print (''Running: '' @ git_log_command b h),
                 Run (git_log_command b h),
                 Print (''PR Title: '' @ title pr)]\<rparr>)"
    unfolding main_with_refs [OF refs(1)] refs(2,3) step_print release_def step_version
      step_details
    by simp
  show "\<exists>rest. prompt w cv pr =
            ''You are analyzing a merged pull request to determine the appropriate semantic version bump and generate a changelog entry.\<newline>''
            @ ''\<newline>''
            @ ''Current version: '' @ cv @ ''\<newline>''
            @ ''\<newline>''
            @ ''PR Title: '' @ title pr @ ''\<newline>''
            @ ''\<newline>''
            @ ''PR Description:\<newline>''
            @ body pr @ ''\<newline>''
            @ ''\<newline>''
            @ ''Commit messages:\<newline>''
            @ commits pr @ rest"
    unfolding prompt_def by (simp del: append_assoc)
qed

text \<open>
  The theorem at the example world, which sets neither variable: the details are the two
  defaults, and the run goes on to its end and returns.
\<close>

theorem pr_details_defaults_witness:
  "get_pr_details example_world ''a1b2c3'' ''d4e5f6'' example_state =
     (Inr \<lparr>title = '''', body = ''No description provided'', commits = ''''\<rparr>,
      example_state\<lparr>trace := [Print (''Running: '' @ git_log_command ''a1b2c3'' ''d4e5f6''),
                               Run (git_log_command ''a1b2c3'' ''d4e5f6'')]\<rparr>) \<and>
   fst (main example_world example_state) = Inr ()"
proof -
  have h1: "environ example_world ''BASE_SHA'' = Some ''a1b2c3''"
    and h2: "''a1b2c3'' \<noteq> []"
    and h3: "environ example_world ''HEAD_SHA'' = Some ''d4e5f6''"
    and h4: "''d4e5f6'' \<noteq> []"
    and h5: "package_version example_world = Some ''1.2.3''"
    and h6: "returncode (shell example_world (git_log_command ''a1b2c3'' ''d4e5f6'')) = 0"
    by (simp_all add: example_world_fields)
  have h7: "\<lparr>title = '''', body = ''No description provided'', commits = ''''\<rparr> =
      \<lparr>title = (case environ example_world ''PR_TITLE'' of None \<Rightarrow> '''' | Some t \<Rightarrow> t),
       body = (case environ example_world ''PR_BODY'' of
                 None \<Rightarrow> ''No description provided'' | Some d \<Rightarrow> d),
       commits = strip (stdout (shell example_world (git_log_command ''a1b2c3'' ''d4e5f6'')))\<rparr>"
    by (simp add: example_world_fields strip_def)
  note run = pr_details_defaults [OF h1 h2 h3 h4 h5 h6 h7, of example_state]
  from run have a: "get_pr_details example_world ''a1b2c3'' ''d4e5f6'' example_state =
     (Inr \<lparr>title = '''', body = ''No description provided'', commits = ''''\<rparr>,
      example_state\<lparr>trace := [Print (''Running: '' @ git_log_command ''a1b2c3'' ''d4e5f6''),
                               Run (git_log_command ''a1b2c3'' ''d4e5f6'')]\<rparr>)"
    by (simp add: example_state_fields)
  have b: "fst (main example_world example_state) = Inr ()"
    unfolding run [THEN conjunct2, THEN conjunct1]
    by (simp add: then_do_def print_def ret_def sys_exit_def raise_def emit_def
          getenv_def falsy_def fmt_def run_command_def subprocess_run_def
          analyze_version_bump_def api_failed_def update_package_json_def
          update_changelog_def read_file_def write_file_def append_file_def new_content_def
          commit_and_push_def publish_extension_def create_git_tag_def github_outputs_def
          re_search_def unreleased_re_def unreleased_marker_def newline_def
          carriage_return_def strip_def Let_def example_world_def example_state_def)
  from a b show ?thesis by (rule conjI)
qed

section \<open>The version decision\<close>

text \<open>
  Claim C3, as stated, fails: \<open>analyze_version_bump\<close> returns the fields of the validated
  answer as they are and compares nothing with the current version. With the current
  version 1.2.3 and an answer that says \<open>patch\<close> and \<open>0.0.1\<close>, it returns \<open>0.0.1\<close>, which
  is not greater than 1.2.3 and is not 1.2.4.
\<close>

theorem analyze_version_bump_unchecked:
  "analyze_version_bump
     (example_world\<lparr>model_validate_json := \<lambda>text.
        Inr \<lparr>version_bump = ''patch'', new_version = ''0.0.1'',
             changelog_entry = ''## [0.0.1]''\<rparr>\<rparr>)
     ''1.2.3'' \<lparr>title = '''', body = ''No description provided'', commits = ''''\<rparr>
     example_state
   = (Inr (''patch'', ''0.0.1'', ''## [0.0.1]''),
      example_state\<lparr>trace :=
        [ApiCall (prompt example_world ''1.2.3''
           \<lparr>title = '''', body = ''No description provided'', commits = ''''\<rparr>),
         Print ''Claude response: {...}'']\<rparr>) \<and>
   ''1.2.3'' = version_string (1, 2, 3) \<and>
   ''0.0.1'' = version_string (0, 0, 1) \<and>
   \<not> semver_less (1, 2, 3) (0, 0, 1) \<and>
   ''0.0.1'' \<noteq> version_string (spec_bump Patch (1, 2, 3))"
proof -
  let ?w = "example_world\<lparr>model_validate_json := \<lambda>text.
        Inr \<lparr>version_bump = ''patch'', new_version = ''0.0.1'',
             changelog_entry = ''## [0.0.1]''\<rparr>\<rparr>"
  let ?pr = "\<lparr>title = '''', body = ''No description provided'', commits = ''''\<rparr>"
  have p: "prompt ?w = prompt example_world" by (simp add: prompt_def fun_eq_iff)
  have k: "\<not> falsy (getenv ?w ''ANTHROPIC_API_KEY'')"
    by (simp add: getenv_def falsy_def example_world_fields)
  have m: "llm ?w (prompt ?w ''1.2.3'' ?pr) = ApiMessage (TextBlock ''{...}'' # [])"
    by (simp add: example_world_fields)
  have v: "model_validate_json ?w ''{...}'' =
             Inr \<lparr>version_bump = ''patch'', new_version = ''0.0.1'',
                  changelog_entry = ''## [0.0.1]''\<rparr>" by simp
  from analyze_version_bump_valid [OF k m v, of example_state]
  show ?thesis by (simp add: p example_state_fields)
qed

text \<open>
  Claim C3, amended. On an answer that passes validation \<open>analyze_version_bump\<close> returns
  the answer's \<open>version_bump\<close>, \<open>new_version\<close> and \<open>changelog_entry\<close> unchanged. So whenever
  the answer's \<open>new_version\<close> is the current version \<open>A.B.C\<close> bumped by the rule of its kind
  (patch \<open>A.B.(C+1)\<close>, minor \<open>A.(B+1).0\<close>, major \<open>(A+1).0.0\<close>), the returned version is
  that one and is strictly greater than the current version.
\<close>

theorem analyze_version_bump_returns_response:
  assumes key: "\<not> falsy (getenv w ''ANTHROPIC_API_KEY'')"
    and msg: "llm w (prompt w cv pr) = ApiMessage (TextBlock content # rest)"
    and valid: "model_validate_json w content = Inr va"
  shows "\<exists>v. analyze_version_bump w cv pr s =
               (Inr (version_bump va, v, changelog_entry va),
                s\<lparr>trace := trace s @ [ApiCall (prompt w cv pr),
                                       Print (''Claude response: '' @ content)]\<rparr>) \<and>
             v = new_version va \<and>
             (\<forall>k t. cv = version_string t \<and> version_bump va = kind_name k \<and>
                    new_version va = version_string (spec_bump k t) \<longrightarrow>
                (\<exists>t'. v = version_string t' \<and> t' = spec_bump k t \<and> semver_less t t'))"
proof (intro exI conjI allI impI)
  show "analyze_version_bump w cv pr s =
               (Inr (version_bump va, new_version va, changelog_entry va),
                s\<lparr>trace := trace s @ [ApiCall (prompt w cv pr),
                                       Print (''Claude response: '' @ content)]\<rparr>)"
    using key msg valid by (rule analyze_version_bump_valid)
  show "new_version va = new_version va" by (rule refl)
next
  fix k t
  assume a: "cv = version_string t \<and> version_bump va = kind_name k \<and>
             new_version va = version_string (spec_bump k t)"
  then show "new_version va = version_string (spec_bump k t)" by (elim conjE)
  show "spec_bump k t = spec_bump k t" by (rule refl)
  show "semver_less t (spec_bump k t)" by (rule semver_less_spec_bump)
qed

text \<open>The theorem at the example world: 1.2.3 and an answer of \<open>patch\<close>, 1.2.4.\<close>

theorem analyze_version_bump_returns_response_witness:
  "analyze_version_bump example_world ''1.2.3''
     \<lparr>title = '''', body = ''No description provided'', commits = ''''\<rparr> example_state
   = (Inr (''patch'', ''1.2.4'', ''## [1.2.4]''),
      example_state\<lparr>trace :=
        [ApiCall (prompt example_world ''1.2.3''
           \<lparr>title = '''', body = ''No description provided'', commits = ''''\<rparr>),
         Print ''Claude response: {...}'']\<rparr>) \<and>
   ''1.2.3'' = version_string (1, 2, 3) \<and>
   ''patch'' = kind_name Patch \<and>
   ''1.2.4'' = version_string (spec_bump Patch (1, 2, 3)) \<and>
   semver_less (1, 2, 3) (spec_bump Patch (1, 2, 3))"
proof -
  let ?pr = "\<lparr>title = '''', body = ''No description provided'', commits = ''''\<rparr>"
  let ?va = "\<lparr>version_bump = ''patch'', new_version = ''1.2.4'',
              changelog_entry = ''## [1.2.4]''\<rparr>"
  have k: "\<not> falsy (getenv example_world ''ANTHROPIC_API_KEY'')"
    by (simp add: getenv_def falsy_def example_world_fields)
  have m: "llm example_world (prompt example_world ''1.2.3'' ?pr)
             = ApiMessage (TextBlock ''{...}'' # [])"
    by (simp add: example_world_fields)
  have v: "model_validate_json example_world ''{...}'' = Inr ?va"
    by (simp add: example_world_fields)
  have h: "''1.2.3'' = version_string (1, 2, 3) \<and> version_bump ?va = kind_name Patch \<and>
           new_version ?va = version_string (spec_bump Patch (1, 2, 3))"
    by simp
  from analyze_version_bump_returns_response [OF k m v, of example_state]
  obtain x where
    a: "analyze_version_bump example_world ''1.2.3'' ?pr example_state =
          (Inr (version_bump ?va, x, changelog_entry ?va),
           example_state\<lparr>trace := trace example_state @
              [ApiCall (prompt example_world ''1.2.3'' ?pr),
               Print (''Claude response: '' @ ''{...}'')]\<rparr>)"
    and b: "x = new_version ?va"
    and c: "\<forall>k t. ''1.2.3'' = version_string t \<and> version_bump ?va = kind_name k \<and>
                    new_version ?va = version_string (spec_bump k t) \<longrightarrow>
                (\<exists>t'. x = version_string t' \<and> t' = spec_bump k t \<and> semver_less t t')"
    by (elim exE conjE)
  have h1: "''1.2.3'' = version_string (1, 2, 3)" by simp
  have h2: "''patch'' = kind_name Patch" by simp
  have h3: "''1.2.4'' = version_string (spec_bump Patch (1, 2, 3))" by simp
  note c [rule_format, OF h]
  then have h4: "semver_less (1, 2, 3) (spec_bump Patch (1, 2, 3))"
    by (elim exE conjE) (simp only:)
  have tr: "trace example_state @ [ApiCall (prompt example_world ''1.2.3'' ?pr),
               Print (''Claude response: '' @ ''{...}'')]
            = [ApiCall (prompt example_world ''1.2.3'' ?pr), Print ''Claude response: {...}'']"
    by (simp add: example_state_fields)
  have h0: "analyze_version_bump example_world ''1.2.3'' ?pr example_state =
      (Inr (''patch'', ''1.2.4'', ''## [1.2.4]''),
       example_state\<lparr>trace := [ApiCall (prompt example_world ''1.2.3'' ?pr),
                                Print ''Claude response: {...}'']\<rparr>)"
    using a unfolding b tr by simp
  from h0 h1 h2 h3 h4 show ?thesis by (intro conjI)
qed

section \<open>Missing environment variables\<close>

text \<open>
  Claim C4, as stated, fails for the two publishing credentials: they are read at the
  start of \<open>publish_extension\<close>, the seventh step. In the example world without
  \<open>OPENVSX_TOKEN\<close> the process ends with status 1 after \<open>git push\<close> has run and the
  changelog has been rewritten.
\<close>

theorem missing_publish_token_after_push:
  "environ (example_world\<lparr>environ := (environ example_world)(''OPENVSX_TOKEN'' := None)\<rparr>)
     ''OPENVSX_TOKEN'' = None \<and>
   (case script (example_world\<lparr>environ := (environ example_world)(''OPENVSX_TOKEN'' := None)\<rparr>)
           example_state of
      (status, s') \<Rightarrow>
        status = 1 \<and>
        Run ''git push'' \<in> set (trace s') \<and>
        files s' ''CHANGELOG.md'' =
          Some ''# Changelog\<newline>\<newline>## [Unreleased]\<newline>\<newline>\<newline>## [1.2.4]\<newline>\<newline>## [1.0.0]\<newline>'' \<and>
        files s' ''CHANGELOG.md'' \<noteq> files example_state ''CHANGELOG.md'')"
  by (simp add: run_defs example_world_def example_state_def)

text \<open>
  Claim C4, amended. When the base reference, the head reference or the API credential
  is absent or empty, the process ends with a status other than zero, the files are
  untouched and all it did is read-only: no file was modified, no commit pushed, nothing
  published. When one of the two publishing credentials is absent or empty, the process
  ends with a status other than zero and has run no command of the publishing step: no
  tool installed, no package built, nothing published.
\<close>

theorem missing_variable_stops_run:
  assumes run: "script w s = (status, s')"
  shows "(falsy (getenv w ''BASE_SHA'') \<or> falsy (getenv w ''HEAD_SHA'') \<or>
          falsy (getenv w ''ANTHROPIC_API_KEY'') \<longrightarrow>
            status \<noteq> 0 \<and> files s' = files s \<and>
            (\<exists>evs. trace s' = trace s @ evs \<and> list_all read_only_event evs)) \<and>
         (falsy (getenv w ''WILDESTAI_AZURE_PUBLISH_PAT'') \<or>
          falsy (getenv w ''OPENVSX_TOKEN'') \<longrightarrow>
            status \<noteq> 0 \<and>
            (\<exists>evs. trace s' = trace s @ evs \<and> list_all (\<lambda>e. \<not> publishing_event e) evs))"
proof (intro conjI impI)
  assume a: "falsy (getenv w ''BASE_SHA'') \<or> falsy (getenv w ''HEAD_SHA'') \<or>
          falsy (getenv w ''ANTHROPIC_API_KEY'')"
  note m = main_no_work [OF a]
  note n = m [THEN conjunct1] and e = m [THEN conjunct2, THEN conjunct1]
    and k = m [THEN conjunct2, THEN conjunct2]
  note c = script_of_failing_main [OF run n e read_only_simps(2)]
  from c show "status \<noteq> 0" by (rule conjunct1)
  from c show "\<exists>evs. trace s' = trace s @ evs \<and> list_all read_only_event evs"
    by (rule conjunct2)
  from script_keeps_files [OF run k] show "files s' = files s" .
next
  assume a: "falsy (getenv w ''WILDESTAI_AZURE_PUBLISH_PAT'') \<or>
          falsy (getenv w ''OPENVSX_TOKEN'')"
  note m = main_never_publishes [OF a]
  note n = m [THEN conjunct1] and e = m [THEN conjunct2]
  note c = script_of_failing_main [OF run n e not_publishing_simps(2)]
  from c show "status \<noteq> 0" by (rule conjunct1)
  from c show "\<exists>evs. trace s' = trace s @ evs \<and> list_all (\<lambda>e. \<not> publishing_event e) evs"
    by (rule conjunct2)
qed

text \<open>
  The theorem at the example world without the API credential, and at the example world
  without one publishing credential.
\<close>

theorem missing_variable_stops_run_witness:
  "(case script (example_world\<lparr>environ := (environ example_world)(''ANTHROPIC_API_KEY'' := None)\<rparr>)
           example_state of
      (status, s') \<Rightarrow>
        falsy (getenv (example_world\<lparr>environ := (environ example_world)(''ANTHROPIC_API_KEY'' := None)\<rparr>)
                 ''ANTHROPIC_API_KEY'') \<and>
        status \<noteq> 0 \<and> files s' = files example_state \<and>
        (\<exists>evs. trace s' = trace example_state @ evs \<and> list_all read_only_event evs)) \<and>
   (case script (example_world\<lparr>environ := (environ example_world)(''OPENVSX_TOKEN'' := None)\<rparr>)
           example_state of
      (status, s') \<Rightarrow>
        falsy (getenv (example_world\<lparr>environ := (environ example_world)(''OPENVSX_TOKEN'' := None)\<rparr>)
                 ''OPENVSX_TOKEN'') \<and>
        status \<noteq> 0 \<and>
        (\<exists>evs. trace s' = trace example_state @ evs \<and>
               list_all (\<lambda>e. \<not> publishing_event e) evs))"
proof -
  let ?a = "example_world\<lparr>environ := (environ example_world)(''ANTHROPIC_API_KEY'' := None)\<rparr>"
  let ?b = "example_world\<lparr>environ := (environ example_world)(''OPENVSX_TOKEN'' := None)\<rparr>"
  have ka: "falsy (getenv ?a ''ANTHROPIC_API_KEY'')" by (simp add: falsy_def getenv_def)
  have kb: "falsy (getenv ?b ''OPENVSX_TOKEN'')" by (simp add: falsy_def getenv_def)
  obtain sta sa where ra: "script ?a example_state = (sta, sa)"
    by (cases "script ?a example_state")
  obtain stb sb where rb: "script ?b example_state = (stb, sb)"
    by (cases "script ?b example_state")
  from missing_variable_stops_run [OF ra] ka
  have a: "sta \<noteq> 0 \<and> files sa = files example_state \<and>
        (\<exists>evs. trace sa = trace example_state @ evs \<and> list_all read_only_event evs)"
    by blast
  from missing_variable_stops_run [OF rb] kb
  have b: "stb \<noteq> 0 \<and>
        (\<exists>evs. trace sb = trace example_state @ evs \<and>
               list_all (\<lambda>e. \<not> publishing_event e) evs)"
    by blast
  from a b ka kb show ?thesis unfolding ra rb by simp
qed

section \<open>The output file\<close>



end
